theory Spec2Isabelle
  imports Main "HOL-Library.Multiset"
begin

section \<open>Strings and text replacements\<close>

text \<open>
  A JavaScript string is a sequence of code units; the patch loop of
  \<^verbatim>\<open>main.ts\<close> only slices and concatenates, so a code unit is a \<^typ>\<open>char\<close>
  here and a string is a \<^typ>\<open>string\<close>. Positions are integers.

  \<^verbatim>\<open>String.prototype.substring(start, end)\<close> clamps both indices into
  \<open>[0, length]\<close> and swaps them when \<open>start > end\<close>; with one argument the
  end is the length of the string.
\<close>

definition clampIndex :: "string \<Rightarrow> int \<Rightarrow> nat" where
  "clampIndex s i = (if i < 0 then 0 else min (nat i) (length s))"

definition substring :: "string \<Rightarrow> int \<Rightarrow> int \<Rightarrow> string" where
  "substring s a b =
     (let x = clampIndex s a; y = clampIndex s b
      in take (max x y - min x y) (drop (min x y) s))"

definition substringFrom :: "string \<Rightarrow> int \<Rightarrow> string" where
  "substringFrom s a = drop (clampIndex s a) s"

text \<open>
  The linter's \<^verbatim>\<open>Replacement\<close>: the half-open range
  \<open>[startPosition, endPosition)\<close> of the source text and the text that replaces it
  (the field \<^verbatim>\<open>text\<close>, primed here because the name is a command of the prover,
  as is \<^verbatim>\<open>output\<close> of the lint result).
  A \<^verbatim>\<open>Fix\<close> carries replacements, a failure carries fixes
  (\<^verbatim>\<open>f.getFixes()\<close>).
\<close>

record Replacement =
  startPosition :: int
  endPosition :: int
  text' :: string

record Fix =
  replacements :: "Replacement list"

record RuleFailure =
  getFixes :: "Fix list"

record LintResult =
  failureCount :: nat
  failures :: "RuleFailure list"
  output' :: string

section \<open>Accumulating and applying the fixes of one file\<close>

text \<open>
  \<^verbatim>\<open>result.failures.reduce((acc, f) => { if (f.getFixes().length > 0) { return
  acc.concat(f.getFixes()[0].replacements); } else { return acc; } }, [])\<close>

  The index \<open>0\<close> is read only under the guard \<open>length > 0\<close>.
\<close>

definition accumulateStep :: "Replacement list \<Rightarrow> RuleFailure \<Rightarrow> Replacement list" where
  "accumulateStep acc f =
     (if length (getFixes f) > 0 then acc @ replacements (getFixes f ! 0) else acc)"

definition accumulateFixReplacements :: "RuleFailure list \<Rightarrow> Replacement list" where
  "accumulateFixReplacements fs = foldl accumulateStep [] fs"

text \<open>
  \<^verbatim>\<open>replacements.sort((a, b) => b.endPosition - a.endPosition)\<close>: descending by
  \<open>endPosition\<close>. The comparator says nothing about two replacements with the same
  \<open>endPosition\<close>; the engine's sort keeps them in the order they had (insertion sort
  on short arrays, a stable sort in every current engine), and so does
  \<^const>\<open>sort_key\<close>.
\<close>

definition sortInReverseOrder :: "Replacement list \<Rightarrow> Replacement list" where
  "sortInReverseOrder rs = sort_key (\<lambda>r. - endPosition r) rs"

text \<open>
  \<^verbatim>\<open>newSource = newSource.substring(0, r.startPosition) + r.text +
  source.substring(r.endPosition)\<close>: the head is cut from the text built so far, the
  tail from the original \<open>source\<close>.
\<close>

definition applyStep :: "string \<Rightarrow> string \<Rightarrow> Replacement \<Rightarrow> string" where
  "applyStep source newSource r =
     substring newSource 0 (startPosition r) @ text' r @ substringFrom source (endPosition r)"

definition applyReplacements :: "string \<Rightarrow> Replacement list \<Rightarrow> string" where
  "applyReplacements source rs = foldl (applyStep source) source rs"

definition patch :: "string \<Rightarrow> Replacement list \<Rightarrow> string" where
  "patch source rs = applyReplacements source (sortInReverseOrder rs)"

text \<open>The preconditions of the patch loop, as the specification words them.\<close>

definition rangeValid :: "string \<Rightarrow> Replacement \<Rightarrow> bool" where
  "rangeValid source r \<longleftrightarrow>
     0 \<le> startPosition r \<and> startPosition r \<le> endPosition r \<and> endPosition r \<le> int (length source)"

definition disjointRanges :: "Replacement \<Rightarrow> Replacement \<Rightarrow> bool" where
  "disjointRanges r q \<longleftrightarrow> endPosition r \<le> startPosition q \<or> endPosition q \<le> startPosition r"

fun nonOverlapping :: "Replacement list \<Rightarrow> bool" where
  "nonOverlapping [] = True"
| "nonOverlapping (r # rs) = (list_all (disjointRanges r) rs \<and> nonOverlapping rs)"

section \<open>Paths\<close>

text \<open>
  \<^verbatim>\<open>main.ts\<close> calls \<^verbatim>\<open>path.dirname\<close>, \<^verbatim>\<open>path.join\<close> and
  \<^verbatim>\<open>path.relative\<close> of the platform's \<^verbatim>\<open>path\<close> module, which is not part of
  the repository. They are modelled here on strings, in their POSIX variant, after the
  module's algorithms: a path is split at \<open>/\<close>, empty and \<open>.\<close> segments are dropped
  and a \<open>..\<close> segment removes the segment before it.
\<close>

fun splitSlash :: "string \<Rightarrow> string list" where
  "splitSlash [] = [[]]"
| "splitSlash (c # cs) =
     (if c = CHR ''/'' then [] # splitSlash cs
      else (c # hd (splitSlash cs)) # tl (splitSlash cs))"

fun joinSlash :: "string list \<Rightarrow> string" where
  "joinSlash [] = []"
| "joinSlash [s] = s"
| "joinSlash (s # t # ss) = s @ CHR ''/'' # joinSlash (t # ss)"

definition isAbsolute :: "string \<Rightarrow> bool" where
  "isAbsolute path \<longleftrightarrow> path \<noteq> [] \<and> hd path = CHR ''/''"

text \<open>
  \<^verbatim>\<open>normalizeString(path, allowAboveRoot)\<close>, segment by segment: \<open>res\<close> is the
  normalised path built so far.
\<close>

fun normalizeSegments :: "bool \<Rightarrow> string list \<Rightarrow> string list \<Rightarrow> string list" where
  "normalizeSegments allowAboveRoot res [] = res"
| "normalizeSegments allowAboveRoot res (s # ss) =
     (if s = [] \<or> s = ''.'' then normalizeSegments allowAboveRoot res ss
      else if s = ''..'' then
        (if res \<noteq> [] \<and> last res \<noteq> ''..''
           then normalizeSegments allowAboveRoot (butlast res) ss
         else if allowAboveRoot
           then normalizeSegments allowAboveRoot (res @ [''..'']) ss
         else normalizeSegments allowAboveRoot res ss)
      else normalizeSegments allowAboveRoot (res @ [s]) ss)"

definition normalize :: "string \<Rightarrow> string" where
  "normalize path =
     (if path = [] then ''.''
      else
        let absolute = isAbsolute path;
            trailingSeparator = (last path = CHR ''/'');
            p1 = joinSlash (normalizeSegments (\<not> absolute) [] (splitSlash path));
            p2 = (if p1 = [] \<and> \<not> absolute then ''.'' else p1);
            p3 = (if p2 \<noteq> [] \<and> trailingSeparator then p2 @ ''/'' else p2)
        in if absolute then CHR ''/'' # p3 else p3)"

text \<open>\<^verbatim>\<open>path.join(a, b)\<close>: the non-empty arguments joined by \<open>/\<close>, normalised.\<close>

definition join :: "string \<Rightarrow> string \<Rightarrow> string" where
  "join a b =
     (let joined = (if a = [] then b else if b = [] then a else a @ ''/'' @ b)
      in if joined = [] then ''.'' else normalize joined)"

text \<open>
  \<^verbatim>\<open>path.dirname(path)\<close> scans the path from its end down to index 1: it skips
  trailing slashes, then the last segment, and cuts the path at the slash it stops on.
  \<open>scanned\<close> is what is left of \<open>tl path\<close> (reversed) at that slash, so its length is
  the index \<^verbatim>\<open>end\<close> of the module's loop.
\<close>

definition dirname :: "string \<Rightarrow> string" where
  "dirname path =
     (if path = [] then ''.''
      else
        let hasRoot = (hd path = CHR ''/'');
            scanned = dropWhile (\<lambda>c. c \<noteq> CHR ''/'')
                        (dropWhile (\<lambda>c. c = CHR ''/'') (rev (tl path)))
        in if scanned = [] then (if hasRoot then ''/'' else ''.'')
           else if hasRoot \<and> length scanned = 1 then ''//''
           else take (length scanned) path)"

text \<open>
  The segments of the absolute path that a path string names for a process whose working
  directory is \<open>wd\<close> (\<^verbatim>\<open>path.resolve\<close>). Resolution is lexical: symbolic links
  are not modelled.
\<close>

definition resolveSegments :: "string \<Rightarrow> string \<Rightarrow> string list" where
  "resolveSegments wd path =
     normalizeSegments False []
       (splitSlash (if isAbsolute path then path else wd @ ''/'' @ path))"

fun commonLength :: "string list \<Rightarrow> string list \<Rightarrow> nat" where
  "commonLength (x # xs) (y # ys) = (if x = y then Suc (commonLength xs ys) else 0)"
| "commonLength _ _ = 0"

text \<open>
  \<^verbatim>\<open>path.relative(from, to)\<close>: both paths are resolved, their common leading
  segments dropped, and one \<open>..\<close> is emitted for every segment left of \<open>from\<close>.
\<close>

definition relative :: "string \<Rightarrow> string \<Rightarrow> string \<Rightarrow> string" where
  "relative wd from to =
     (let f = resolveSegments wd from; t = resolveSegments wd to; n = commonLength f t
      in joinSlash (replicate (length f - n) ''..'' @ drop n t))"

section \<open>The file system and the process\<close>

text \<open>
  The calls of the \<^verbatim>\<open>fs\<close> module that \<^verbatim>\<open>main.ts\<close> makes, on a file
  system that maps the segments of an absolute path to a directory or to a file with its
  content. A call that fails throws: the error is a value and the file system is left as
  it was. The process is its file system, its working directory (\<^verbatim>\<open>process.cwd()\<close>)
  and the calls it has made so far to the file system (those that write) and to its
  collaborators.

  The errors are those of the file system calls, \<open>RangeError\<close> for a call stack
  that is used up, \<open>TypeError\<close> for a call on \<^verbatim>\<open>undefined\<close>, and those that
  the collaborators throw. Of the events, \<open>CreateProgram\<close> is the first call of
  \<^verbatim>\<open>ts.createProgram\<close> and \<open>RecreateProgram\<close> the second, which is handed the
  first program; \<open>Codegen\<close> is the call of the extension and \<open>Lint\<close> the run of
  the linter on a file; \<open>EmitPrimary\<close> and \<open>EmitMetadata\<close> are the two calls of
  \<^verbatim>\<open>tsc.emit\<close>.
\<close>

datatype Node = Dir | File string

datatype Error =
    ENOENT | EEXIST | ENOTDIR | EISDIR
  | RangeError
  | TypeError
  | ConfigurationError string
  | OptionsDiagnosticError "string list"
  | CodegenFault string
  | TypeCheckError string
  | EmitError string

datatype Event =
    MkdirSync "string list"
  | WriteFileSync "string list" string
  | ConsoleLog string
  | ReadConfiguration
  | CreateCompilerHost
  | CreateProgram
  | GetOptionsDiagnostics
  | Codegen
  | RecreateProgram
  | TypeCheck
  | Lint string
  | EmitPrimary
  | EmitMetadata

record World =
  files :: "string list \<rightharpoonup> Node"
  cwd :: string
  trace :: "Event list"

type_synonym 'a Result = "(Error + 'a) \<times> World"

definition logEvent :: "Event \<Rightarrow> World \<Rightarrow> World" where
  "logEvent e w = w\<lparr>trace := trace w @ [e]\<rparr>"

definition existsSync :: "string \<Rightarrow> World \<Rightarrow> bool" where
  "existsSync path w \<longleftrightarrow> files w (resolveSegments (cwd w) path) \<noteq> None"

definition lstatSyncIsFile :: "string \<Rightarrow> World \<Rightarrow> bool Result" where
  "lstatSyncIsFile path w =
     (case files w (resolveSegments (cwd w) path) of
        None \<Rightarrow> (Inl ENOENT, w)
      | Some Dir \<Rightarrow> (Inr False, w)
      | Some (File _) \<Rightarrow> (Inr True, w))"

definition mkdirSync :: "string \<Rightarrow> World \<Rightarrow> unit Result" where
  "mkdirSync path w =
     (let k = resolveSegments (cwd w) path; w1 = logEvent (MkdirSync k) w
      in if files w k \<noteq> None then (Inl EEXIST, w1)
         else case files w (butlast k) of
                None \<Rightarrow> (Inl ENOENT, w1)
              | Some (File _) \<Rightarrow> (Inl ENOTDIR, w1)
              | Some Dir \<Rightarrow> (Inr (), w1\<lparr>files := (files w)(k \<mapsto> Dir)\<rparr>))"

definition writeFileSync :: "string \<Rightarrow> string \<Rightarrow> World \<Rightarrow> unit Result" where
  "writeFileSync path data w =
     (let k = resolveSegments (cwd w) path; w1 = logEvent (WriteFileSync k data) w
      in if files w k = Some Dir then (Inl EISDIR, w1)
         else case files w (butlast k) of
                None \<Rightarrow> (Inl ENOENT, w1)
              | Some (File _) \<Rightarrow> (Inl ENOTDIR, w1)
              | Some Dir \<Rightarrow> (Inr (), w1\<lparr>files := (files w)(k \<mapsto> File data)\<rparr>))"

text \<open>
  A file system is a tree: the root is a directory and whatever exists lies in a
  directory. The process runs in a directory that exists.
\<close>

definition wellFormed :: "World \<Rightarrow> bool" where
  "wellFormed w \<longleftrightarrow>
     files w [] = Some Dir \<and>
     (\<forall>k \<in> dom (files w). files w (butlast k) = Some Dir) \<and>
     isAbsolute (cwd w) \<and>
     files w (resolveSegments (cwd w) (cwd w)) = Some Dir"

section \<open>Creating the parent directories\<close>

text \<open>
  \<^verbatim>\<open>function mkdirParent(baseDir, dir)\<close>. The recursion is on \<open>dirname dir\<close>,
  which need not get shorter (\<open>dirname ''/'' = ''/''\<close>), so the function takes the depth
  of calls it may still nest: \<open>None\<close> is a recursion that did not come back within that
  depth.
\<close>

fun mkdirParent :: "nat \<Rightarrow> string \<Rightarrow> string \<Rightarrow> World \<Rightarrow> unit Result option" where
  "mkdirParent 0 baseDir dir w = None"
| "mkdirParent (Suc depth) baseDir dir w =
     (if dir = ''.'' \<or> existsSync (join baseDir dir) w then Some (Inr (), w)
      else case mkdirParent depth baseDir (dirname dir) w of
             None \<Rightarrow> None
           | Some (Inl e, w1) \<Rightarrow> Some (Inl e, w1)
           | Some (Inr _, w1) \<Rightarrow> Some (mkdirSync (join baseDir dir) w1))"

section \<open>The pipeline\<close>

text \<open>
  The collaborators of \<^verbatim>\<open>main\<close> are outside the repository's file (the compiler,
  the linter, the configuration reader, the emitters): they are parameters of the model.
  A collaborator that writes files is a function on the file system that ends with an
  error or without; a program is a value of a type \<open>'p\<close> that only the collaborators
  look into. Diagnostics are opaque and stand as strings.
\<close>

type_synonym FileSystem = "string list \<rightharpoonup> Node"

type_synonym Effect = "FileSystem \<Rightarrow> (Error + unit) \<times> FileSystem"

record NgOptions =
  basePath :: string
  skipTemplateCodegen :: bool
  skipMetadataEmit :: bool

record ParsedCommandLine =
  fileNames :: "string list"
  options :: string

type_synonym 'p CodegenExtension = "NgOptions \<Rightarrow> 'p \<Rightarrow> Effect"

record 'p Collaborators =
  readConfiguration :: "string \<Rightarrow> string \<Rightarrow> FileSystem \<Rightarrow> Error + ParsedCommandLine \<times> NgOptions"
  createProgram :: "string list \<Rightarrow> string \<Rightarrow> 'p option \<Rightarrow> FileSystem \<Rightarrow> 'p"
  getOptionsDiagnostics :: "'p \<Rightarrow> string list"
  typeCheck :: "'p \<Rightarrow> Error + unit"
  getFullText :: "'p \<Rightarrow> string \<Rightarrow> string option"
  lint :: "string \<Rightarrow> string \<Rightarrow> 'p \<Rightarrow> LintResult"
  emitTsickle :: "'p \<Rightarrow> Effect"
  emitMetadata :: "'p \<Rightarrow> Effect"

definition runEffect :: "Effect \<Rightarrow> World \<Rightarrow> unit Result" where
  "runEffect f w = (case f (files w) of (r, fs) \<Rightarrow> (r, w\<lparr>files := fs\<rparr>))"

definition andThen :: "'a Result \<Rightarrow> ('a \<Rightarrow> World \<Rightarrow> 'b Result) \<Rightarrow> 'b Result" where
  "andThen r f = (case r of (Inl e, w) \<Rightarrow> (Inl e, w) | (Inr x, w) \<Rightarrow> f x w)"

text \<open>
  Modelled from the spec: \<^verbatim>\<open>check\<close>, imported from \<^verbatim>\<open>./tsc\<close>, whose source is
  not among the files. The orchestrator treats a non-empty sequence of diagnostics as
  fatal.
\<close>

definition check :: "string list \<Rightarrow> Error + unit" where
  "check errors = (if errors \<noteq> [] then Inl (OptionsDiagnosticError errors) else Inr ())"

text \<open>
  The body of the loop over \<^verbatim>\<open>parsed.fileNames\<close> (lines 79 to 111).
  \<^verbatim>\<open>getSourceFile(file)\<close> is undefined for a file the program does not have, and
  the call of \<^verbatim>\<open>getFullText\<close> on it throws. \<open>depth\<close> is the depth of calls the
  engine allows \<^verbatim>\<open>mkdirParent\<close>; beyond it the engine throws.
\<close>

definition analyzeFile ::
  "'p Collaborators \<Rightarrow> nat \<Rightarrow> string \<Rightarrow> 'p \<Rightarrow> string \<Rightarrow> World \<Rightarrow> unit Result" where
  "analyzeFile tools depth fixDir newProgram file w =
     (case getFullText tools newProgram file of
        None \<Rightarrow> (Inl TypeError, w)
      | Some source \<Rightarrow>
          let w1 = logEvent (Lint file) w;
              result = lint tools file source newProgram
          in if failureCount result > 0 then
               (let w2 = logEvent (ConsoleLog (output' result)) w1;
                    replacements = accumulateFixReplacements (failures result)
                in if length replacements > 0 then
                     (let newSource = patch source replacements;
                          newPath = relative (cwd w2) (cwd w2) file;
                          w3 = logEvent (ConsoleLog (''Creating fix '' @ newPath)) w2
                      in case mkdirParent depth fixDir (dirname newPath) w3 of
                           None \<Rightarrow> (Inl RangeError, w3)
                         | Some (Inl e, w4) \<Rightarrow> (Inl e, w4)
                         | Some (Inr _, w4) \<Rightarrow> writeFileSync (join fixDir newPath) newSource w4)
                   else (Inr (), w2))
             else (Inr (), w1))"

fun analyzeFiles ::
  "'p Collaborators \<Rightarrow> nat \<Rightarrow> string \<Rightarrow> 'p \<Rightarrow> string list \<Rightarrow> World \<Rightarrow> unit Result" where
  "analyzeFiles tools depth fixDir newProgram [] w = (Inr (), w)"
| "analyzeFiles tools depth fixDir newProgram (file # rest) w =
     andThen (analyzeFile tools depth fixDir newProgram file w)
       (\<lambda>_. analyzeFiles tools depth fixDir newProgram rest)"

text \<open>Lines 73 to 112: the \<^verbatim>\<open>fixes\<close> directory, then the loop over the files.\<close>

definition makeFixDir :: "string \<Rightarrow> World \<Rightarrow> unit Result" where
  "makeFixDir fixDir w = (if \<not> existsSync fixDir w then mkdirSync fixDir w else (Inr (), w))"

definition analyzeAndPatch ::
  "'p Collaborators \<Rightarrow> nat \<Rightarrow> ParsedCommandLine \<Rightarrow> 'p \<Rightarrow> World \<Rightarrow> unit Result" where
  "analyzeAndPatch tools depth parsed newProgram w =
     (let fixDir = join (cwd w) ''fixes''
      in andThen (makeFixDir fixDir w)
           (\<lambda>_. analyzeFiles tools depth fixDir newProgram (fileNames parsed)))"

text \<open>Lines 114 to 126: the two emits.\<close>

definition emitAll :: "'p Collaborators \<Rightarrow> NgOptions \<Rightarrow> 'p \<Rightarrow> World \<Rightarrow> unit Result" where
  "emitAll tools ngOptions newProgram w =
     andThen (runEffect (emitTsickle tools newProgram) (logEvent EmitPrimary w))
       (\<lambda>_ w1. if \<not> skipMetadataEmit ngOptions
                then runEffect (emitMetadata tools newProgram) (logEvent EmitMetadata w1)
                else (Inr (), w1))"

text \<open>
  Lines 36 to 127: what runs once the promise of the code generation is fulfilled. The
  program is created again, from the first one.
\<close>

definition afterCodegen ::
  "'p Collaborators \<Rightarrow> nat \<Rightarrow> ParsedCommandLine \<Rightarrow> NgOptions \<Rightarrow> 'p \<Rightarrow> World \<Rightarrow> unit Result" where
  "afterCodegen tools depth parsed ngOptions program w =
     (let newProgram = createProgram tools (fileNames parsed) (options parsed) (Some program) (files w);
          w1 = logEvent RecreateProgram w;
          w2 = logEvent TypeCheck w1
      in case typeCheck tools newProgram of
           Inl e \<Rightarrow> (Inl e, w2)
         | Inr _ \<Rightarrow>
             andThen (analyzeAndPatch tools depth parsed newProgram w2)
               (\<lambda>_. emitAll tools ngOptions newProgram))"

text \<open>
  Lines 17 to 26: the configuration. \<^verbatim>\<open>lstatSync\<close> throws for a project that
  does not exist; \<^verbatim>\<open>basePath || projectDir\<close> takes \<open>projectDir\<close> for an absent
  and for an empty \<open>basePath\<close>.
\<close>

definition configLoad ::
  "'p Collaborators \<Rightarrow> string \<Rightarrow> string option \<Rightarrow> World \<Rightarrow> (ParsedCommandLine \<times> NgOptions) Result" where
  "configLoad tools project basePathArg w =
     andThen (lstatSyncIsFile project w)
       (\<lambda>isFile w0.
          let projectDir = (if isFile then dirname project else project);
              basePath1 = join (cwd w0)
                           (case basePathArg of
                              None \<Rightarrow> projectDir
                            | Some b \<Rightarrow> if b = [] then projectDir else b);
              w1 = logEvent ReadConfiguration w0
          in case readConfiguration tools project basePath1 (files w1) of
               Inl e \<Rightarrow> (Inl e, w1)
             | Inr (parsed, ngOptions) \<Rightarrow>
                 (Inr (parsed, ngOptions\<lparr>basePath := basePath1\<rparr>), w1))"

text \<open>
  Lines 33 to 36: \<^verbatim>\<open>if (ngOptions.skipTemplateCodegen || !codegen) { codegen = () =>
  Promise.resolve(null); }\<close>, then the call of \<^verbatim>\<open>codegen\<close>.
\<close>

definition runCodegen ::
  "NgOptions \<Rightarrow> 'p \<Rightarrow> 'p CodegenExtension option \<Rightarrow> World \<Rightarrow> unit Result" where
  "runCodegen ngOptions program codegen w =
     (case (if skipTemplateCodegen ngOptions then None else codegen) of
        None \<Rightarrow> (Inr (), w)
      | Some extension \<Rightarrow> runEffect (extension ngOptions program) (logEvent Codegen w))"

text \<open>
  \<^verbatim>\<open>main(project, basePath, codegen)\<close>. The promise it returns is the pair of how
  the run ended, rejected (\<open>Inl\<close>) or fulfilled, and the process after it.
\<close>

definition main ::
  "'p Collaborators \<Rightarrow> nat \<Rightarrow> string \<Rightarrow> string option \<Rightarrow> 'p CodegenExtension option \<Rightarrow>
     World \<Rightarrow> unit Result" where
  "main tools depth project basePathArg codegen w =
     andThen (configLoad tools project basePathArg w)
       (\<lambda>(parsed, ngOptions) w1.
          let w2 = logEvent CreateCompilerHost w1;
              program = createProgram tools (fileNames parsed) (options parsed) None (files w2);
              w3 = logEvent CreateProgram w2;
              errors = getOptionsDiagnostics tools program;
              w4 = logEvent GetOptionsDiagnostics w3
          in case check errors of
               Inl e \<Rightarrow> (Inl e, w4)
             | Inr _ \<Rightarrow>
                 andThen (runCodegen ngOptions program codegen w4)
                   (\<lambda>_. afterCodegen tools depth parsed ngOptions program))"

section \<open>Notions used to state the properties\<close>


text \<open>
  From \<open>w\<close> to \<open>w'\<close> nothing on the file system was changed or removed, and whatever
  is new is a directory.
\<close>

definition onlyDirsAdded :: "World \<Rightarrow> World \<Rightarrow> bool" where
  "onlyDirsAdded w w' \<longleftrightarrow>
     (\<forall>k. files w' k = files w k \<or> (files w k = None \<and> files w' k = Some Dir))"

text \<open>A segment that names a file or a directory.\<close>

definition plainSegment :: "string \<Rightarrow> bool" where
  "plainSegment s \<longleftrightarrow> s \<noteq> [] \<and> s \<noteq> ''.'' \<and> s \<noteq> ''..'' \<and> CHR ''/'' \<notin> set s"

text \<open>
  The mirrored path of a file: its path relative to the working directory, joined under
  the directory \<open>fixes\<close> of the working directory (lines 74, 105 and 109), as the
  segments it resolves to.
\<close>

definition mirroredPath :: "string \<Rightarrow> string \<Rightarrow> string list" where
  "mirroredPath wd name = resolveSegments wd (join (join wd ''fixes'') (relative wd wd name))"

text \<open>
  The text that the body of the loop writes for a file, when it writes one (lines 79 to
  103): the patched full text, for a file of the program whose lint result counts a
  failure and has a replacement collected.
\<close>

definition patchedText :: "'p Collaborators \<Rightarrow> 'p \<Rightarrow> string \<Rightarrow> string option" where
  "patchedText tools newProgram name =
     (case getFullText tools newProgram name of
        None \<Rightarrow> None
      | Some source \<Rightarrow>
          let result = lint tools name source newProgram;
              replacements = accumulateFixReplacements (failures result)
          in if failureCount result > 0 \<and> length replacements > 0
             then Some (patch source replacements) else None)"

text \<open>
  The calls that the analysis of the files and the two emits make; the other events are
  those of the steps up to the type check.
\<close>

fun analysisOrEmitEvent :: "Event \<Rightarrow> bool" where
  "analysisOrEmitEvent (MkdirSync _) = True"
| "analysisOrEmitEvent (WriteFileSync _ _) = True"
| "analysisOrEmitEvent (ConsoleLog _) = True"
| "analysisOrEmitEvent (Lint _) = True"
| "analysisOrEmitEvent EmitPrimary = True"
| "analysisOrEmitEvent EmitMetadata = True"
| "analysisOrEmitEvent _ = False"

text \<open>
  A process in the directory \<open>/w\<close>, which holds the source file \<open>src/a.ts\<close> and an
  empty directory \<open>fixes\<close>, that has made no call yet.
\<close>

definition exampleWorld :: World where
  "exampleWorld =
     \<lparr>files = [[] \<mapsto> Dir, [''w''] \<mapsto> Dir, [''w'', ''fixes''] \<mapsto> Dir,
               [''w'', ''src''] \<mapsto> Dir, [''w'', ''src'', ''a.ts''] \<mapsto> File ''abcdef''],
      cwd = ''/w'', trace = []\<rparr>"

text \<open>
  Collaborators for that process: a configuration with the one file and code generation
  skipped, a program (the list of its files) without diagnostics, a linter that reports
  one finding with one fix of one replacement, and emitters that write nothing.
\<close>

definition exampleTools :: "(string list) Collaborators" where
  "exampleTools =
     \<lparr>readConfiguration = (\<lambda>project basePath0 fs.
          Inr (\<lparr>fileNames = [''/w/src/a.ts''], options = []\<rparr>,
               \<lparr>basePath = [], skipTemplateCodegen = True, skipMetadataEmit = False\<rparr>)),
      createProgram = (\<lambda>names opts old fs. names),
      getOptionsDiagnostics = (\<lambda>program. []),
      typeCheck = (\<lambda>program. Inr ()),
      getFullText = (\<lambda>program name. if name \<in> set program then Some ''abcdef'' else None),
      lint = (\<lambda>name source program.
          \<lparr>failureCount = 1,
           failures = [\<lparr>getFixes = [\<lparr>replacements =
              [\<lparr>startPosition = 0, endPosition = 1, text' = ''XX''\<rparr>]\<rparr>]\<rparr>],
           output' = ''missing header''\<rparr>),
      emitTsickle = (\<lambda>program fs. (Inr (), fs)),
      emitMetadata = (\<lambda>program fs. (Inr (), fs))\<rparr>"

text \<open>
  The same process before any run: the directory \<open>fixes\<close> does not exist. And the
  same collaborators with a linter that finds nothing.
\<close>

definition freshWorld :: World where
  "freshWorld =
     \<lparr>files = [[] \<mapsto> Dir, [''w''] \<mapsto> Dir,
               [''w'', ''src''] \<mapsto> Dir, [''w'', ''src'', ''a.ts''] \<mapsto> File ''abcdef''],
      cwd = ''/w'', trace = []\<rparr>"

definition quietTools :: "(string list) Collaborators" where
  "quietTools =
     exampleTools\<lparr>lint := (\<lambda>name source program.
        \<lparr>failureCount = 0, failures = [], output' = []\<rparr>)\<rparr>"

text \<open>
  Collaborators whose first program has no files and fails the type check: only a program
  created from a prior one has the files of the configuration.
\<close>

definition seededTools :: "(string list) Collaborators" where
  "seededTools =
     exampleTools
       \<lparr>createProgram := (\<lambda>names opts old fs. case old of None \<Rightarrow> [] | Some _ \<Rightarrow> names),
        typeCheck := (\<lambda>program. if program = [] then Inl (TypeCheckError ''no files'') else Inr ())\<rparr>"

text \<open>
  A process in \<open>/w\<close> with two source files, \<open>/w/fixes/a.ts\<close> and \<open>/w/a.ts\<close>,
  and collaborators whose program has the texts of the two files.
\<close>

definition collisionWorld :: World where
  "collisionWorld =
     \<lparr>files = [[] \<mapsto> Dir, [''w''] \<mapsto> Dir, [''w'', ''fixes''] \<mapsto> Dir,
               [''w'', ''fixes'', ''a.ts''] \<mapsto> File ''first'',
               [''w'', ''a.ts''] \<mapsto> File ''second''],
      cwd = ''/w'', trace = []\<rparr>"

definition collisionTools :: "(string list) Collaborators" where
  "collisionTools =
     exampleTools\<lparr>getFullText := (\<lambda>program name.
        if name = ''/w/fixes/a.ts'' then Some ''first''
        else if name = ''/w/a.ts'' then Some ''second'' else None)\<rparr>"

section \<open>Properties of the fix collection and of the patch loop\<close>

lemma accumulate_foldl:
  "foldl accumulateStep acc fs =
     acc @ concat (map (\<lambda>f. case getFixes f of [] \<Rightarrow> [] | fx # _ \<Rightarrow> replacements fx) fs)"
  by (induction fs arbitrary: acc) (auto simp: accumulateStep_def split: list.splits)

text \<open>
  C7. The replacements collected for a file are the concatenation, in the order of the
  findings, of the replacements of the first fix of every finding that has a fix. A
  finding without a fix contributes nothing, the fixes after the first are not read, and
  nothing is removed from the concatenation.
\<close>

theorem accumulate_first_fix_only:
  "accumulateFixReplacements fs =
     concat (map (\<lambda>f. case getFixes f of [] \<Rightarrow> [] | fx # _ \<Rightarrow> replacements fx) fs)"
  unfolding accumulateFixReplacements_def by (simp add: accumulate_foldl)

lemma sort_key_distinct_perm:
  assumes "mset xs = mset ys" and "distinct (map f xs)"
  shows "sort_key f xs = sort_key f ys"
proof -
  let ?a = "sort_key f xs" and ?b = "sort_key f ys"
  have m: "mset (map f xs) = mset (map f ys)"
    using assms(1) by (metis mset_map)
  have dy: "distinct (map f ys)"
    using mset_eq_imp_distinct_iff[OF m] assms(2) by blast
  have sx: "set xs = set ys"
    using assms(1) by (metis set_mset_mset)
  have "map f ?a = map f ?b"
  proof (rule sorted_distinct_set_unique)
    show "sorted (map f ?a)" "sorted (map f ?b)" by simp_all
    show "distinct (map f ?a)" using assms(2) by (simp add: distinct_map)
    show "distinct (map f ?b)" using dy by (simp add: distinct_map)
    show "set (map f ?a) = set (map f ?b)" using sx by simp
  qed
  moreover have "inj_on f (set ?a \<union> set ?b)"
    using assms(2) sx by (simp add: distinct_map)
  ultimately show ?thesis by (rule map_inj_on)
qed

lemma sortInReverseOrder_perm:
  assumes "mset rs = mset qs" and "distinct (map endPosition rs)"
  shows "sortInReverseOrder rs = sortInReverseOrder qs"
proof -
  have "distinct (map (\<lambda>r. - endPosition r) rs)"
    using assms(2) by (simp add: distinct_map inj_on_def)
  then show ?thesis
    unfolding sortInReverseOrder_def using assms(1) by (rule sort_key_distinct_perm[rotated])
qed

text \<open>
  What the loop computes. A replacement that starts no later than those applied before
  it wipes them out: the result is the original text with that one replacement alone.
  So for replacements that do not overlap and end at different positions, the patched
  text holds the replacement that ends first and no other; with one replacement the
  patched text is the substitution of its range.
\<close>

lemma substring_from_zero: "substring s 0 i = take (clampIndex s i) s"
  by (simp add: substring_def clampIndex_def Let_def)

lemma applyReplacements_snoc:
  "applyReplacements source (rs @ [r]) = applyStep source (applyReplacements source rs) r"
  by (simp add: applyReplacements_def)

lemma applyReplacements_prefix:
  assumes "m \<le> length source"
    and "\<forall>r \<in> set rs. int m \<le> startPosition r"
  shows "take m (applyReplacements source rs) = take m source"
  using assms(2)
proof (induction rs rule: rev_induct)
  case Nil
  then show ?case by (simp add: applyReplacements_def)
next
  case (snoc r rs)
  define X where "X = applyReplacements source rs"
  have ih: "take m X = take m source" using snoc by (simp add: X_def)
  have "length (take m X) = m" using ih assms(1) by simp
  then have mX: "m \<le> length X" by simp
  have ms: "int m \<le> startPosition r" using snoc.prems by simp
  then have "m \<le> clampIndex X (startPosition r)" using mX by (auto simp: clampIndex_def)
  then have "take m (take (clampIndex X (startPosition r)) X @ text' r @
      substringFrom source (endPosition r)) = take m X"
    using mX by (simp add: clampIndex_def min_def)
  then show ?case
    using ih by (simp add: applyReplacements_snoc applyStep_def substring_from_zero X_def)
qed

lemma applyReplacements_last:
  assumes "rangeValid source q"
    and "\<forall>r \<in> set pre. startPosition q \<le> startPosition r"
  shows "applyReplacements source (pre @ [q])
     = take (nat (startPosition q)) source @ text' q @ drop (nat (endPosition q)) source"
proof -
  define X where "X = applyReplacements source pre"
  define m where "m = nat (startPosition q)"
  have v: "0 \<le> startPosition q" "startPosition q \<le> endPosition q"
    "endPosition q \<le> int (length source)" using assms(1) by (simp_all add: rangeValid_def)
  have ml: "m \<le> length source" using v by (simp add: m_def)
  have "\<forall>r \<in> set pre. int m \<le> startPosition r" using assms(2) v by (simp add: m_def)
  from applyReplacements_prefix[OF ml this] have px: "take m X = take m source" by (simp add: X_def)
  have "length (take m X) = m" using px ml by simp
  then have mX: "m \<le> length X" by simp
  have "clampIndex X (startPosition q) = m" using v mX by (simp add: clampIndex_def m_def)
  moreover have "clampIndex source (endPosition q) = nat (endPosition q)"
    using v by (simp add: clampIndex_def)
  ultimately show ?thesis
    using px
    by (simp add: applyReplacements_snoc applyStep_def substring_from_zero substringFrom_def
        X_def[symmetric] m_def[symmetric])
qed

lemma disjointRanges_sym: "disjointRanges r q \<Longrightarrow> disjointRanges q r"
  by (auto simp: disjointRanges_def)

lemma nonOverlapping_pairs:
  "nonOverlapping rs \<Longrightarrow> r \<in> set rs \<Longrightarrow> q \<in> set rs \<Longrightarrow> r \<noteq> q \<Longrightarrow> disjointRanges r q"
  by (induction rs) (auto simp: list_all_iff dest: disjointRanges_sym)

lemma patch_keeps_lowest_only:
  assumes "rs \<noteq> []" and "nonOverlapping rs" and "list_all (rangeValid source) rs"
    and "distinct (map endPosition rs)"
  shows "\<exists>q \<in> set rs. (\<forall>r \<in> set rs. endPosition q \<le> endPosition r) \<and>
     patch source rs
       = take (nat (startPosition q)) source @ text' q @ drop (nat (endPosition q)) source"
proof -
  define S where "S = sortInReverseOrder rs"
  define q where "q = last S"
  define pre where "pre = butlast S"
  have setS: "set S = set rs" by (simp add: S_def sortInReverseOrder_def)
  have Sne: "S \<noteq> []" using assms(1) setS by auto
  have S: "S = pre @ [q]" using Sne by (simp add: pre_def q_def)
  have qin: "q \<in> set rs" using S setS by auto
  have "sorted (map (\<lambda>r. - endPosition r) S)"
    unfolding S_def sortInReverseOrder_def by (rule sorted_sort_key)
  then have "sorted (map (\<lambda>r. - endPosition r) (pre @ [q]))"
    unfolding S .
  then have le: "\<forall>r \<in> set pre. endPosition q \<le> endPosition r"
    by (auto simp: sorted_append)
  have "distinct (map endPosition S)"
    using assms(4) by (simp add: S_def sortInReverseOrder_def distinct_map)
  then have "endPosition q \<notin> endPosition ` set pre"
    unfolding S by simp
  then have neq: "\<forall>r \<in> set pre. endPosition r \<noteq> endPosition q \<and> r \<noteq> q"
    by (metis imageI)
  have valid: "\<forall>r \<in> set rs. rangeValid source r" using assms(3) by (simp add: list_all_iff)
  have starts: "\<forall>r \<in> set pre. startPosition q \<le> startPosition r"
  proof
    fix r assume r: "r \<in> set pre"
    then have rin: "r \<in> set rs" using S setS by auto
    have lt: "endPosition q < endPosition r" using le neq r by force
    have "disjointRanges r q" using nonOverlapping_pairs[OF assms(2) rin qin] neq r by blast
    moreover have "startPosition q \<le> endPosition q" using valid qin by (simp add: rangeValid_def)
    ultimately show "startPosition q \<le> startPosition r"
      using lt by (auto simp: disjointRanges_def)
  qed
  have "patch source rs = applyReplacements source (pre @ [q])"
    using S by (simp add: patch_def S_def)
  also have "\<dots> = take (nat (startPosition q)) source @ text' q @ drop (nat (endPosition q)) source"
    using applyReplacements_last[OF _ starts] valid qin by blast
  finally have res: "patch source rs
       = take (nat (startPosition q)) source @ text' q @ drop (nat (endPosition q)) source" .
  have "\<forall>r \<in> set rs. endPosition q \<le> endPosition r"
    using le S setS by auto
  with qin res show ?thesis by blast
qed

lemma patch_single:
  assumes "rangeValid source q"
  shows "patch source [q]
     = take (nat (startPosition q)) source @ text' q @ drop (nat (endPosition q)) source"
  using applyReplacements_last[OF assms, of "[]"]
  by (simp add: patch_def sortInReverseOrder_def)

text \<open>
  C1, at a concrete input. Two replacements that do not overlap and lie within the text:
  \<open>[0, 1)\<close> by \<open>XX\<close> and \<open>[3, 4)\<close> by \<open>YYY\<close> in \<open>abcdef\<close>. The loop applies
  \<open>[3, 4)\<close> first and then builds the result of \<open>[0, 1)\<close> with the tail of the
  original text, so the first substitution is gone: the result is \<open>XXbcdef\<close>, of length
  7, where the substitution of both ranges is \<open>XXbcYYYef\<close>, of length 6 - 2 + 5 = 9.
\<close>

theorem patch_drops_all_but_last_applied:
  "nonOverlapping
     [\<lparr>startPosition = 0, endPosition = 1, text' = ''XX''\<rparr>,
      \<lparr>startPosition = 3, endPosition = 4, text' = ''YYY''\<rparr>] \<and>
   list_all (rangeValid ''abcdef'')
     [\<lparr>startPosition = 0, endPosition = 1, text' = ''XX''\<rparr>,
      \<lparr>startPosition = 3, endPosition = 4, text' = ''YYY''\<rparr>] \<and>
   patch ''abcdef''
     [\<lparr>startPosition = 0, endPosition = 1, text' = ''XX''\<rparr>,
      \<lparr>startPosition = 3, endPosition = 4, text' = ''YYY''\<rparr>] = ''XXbcdef'' \<and>
   ''XXbcdef'' \<noteq> ''XXbcYYYef'' \<and>
   length ''XXbcdef'' \<noteq> length ''abcdef'' - 2 + 5"
  by (simp add: patch_def sortInReverseOrder_def applyReplacements_def applyStep_def
      substring_def substringFrom_def clampIndex_def rangeValid_def disjointRanges_def)

text \<open>
  C2, as stated, fails where two replacements end at the same position. In \<open>abcd\<close>
  the insertion of \<open>I\<close> at \<open>[2, 2)\<close> and the replacement of \<open>[1, 2)\<close> by \<open>RR\<close> do
  not overlap and lie within the text; the sort leaves them in the order it finds them,
  and the two orders give \<open>aRRcd\<close> and \<open>aRIcd\<close>.
\<close>

theorem patch_order_dependent_on_ties:
  "nonOverlapping
     [\<lparr>startPosition = 2, endPosition = 2, text' = ''I''\<rparr>,
      \<lparr>startPosition = 1, endPosition = 2, text' = ''RR''\<rparr>] \<and>
   list_all (rangeValid ''abcd'')
     [\<lparr>startPosition = 2, endPosition = 2, text' = ''I''\<rparr>,
      \<lparr>startPosition = 1, endPosition = 2, text' = ''RR''\<rparr>] \<and>
   mset [\<lparr>startPosition = 2, endPosition = 2, text' = ''I''\<rparr>,
         \<lparr>startPosition = 1, endPosition = 2, text' = ''RR''\<rparr>]
     = mset [\<lparr>startPosition = 1, endPosition = 2, text' = ''RR''\<rparr>,
             \<lparr>startPosition = 2, endPosition = 2, text' = ''I''\<rparr>] \<and>
   patch ''abcd''
     [\<lparr>startPosition = 2, endPosition = 2, text' = ''I''\<rparr>,
      \<lparr>startPosition = 1, endPosition = 2, text' = ''RR''\<rparr>] = ''aRRcd'' \<and>
   patch ''abcd''
     [\<lparr>startPosition = 1, endPosition = 2, text' = ''RR''\<rparr>,
      \<lparr>startPosition = 2, endPosition = 2, text' = ''I''\<rparr>] = ''aRIcd'' \<and>
   patch ''abcd''
     [\<lparr>startPosition = 2, endPosition = 2, text' = ''I''\<rparr>,
      \<lparr>startPosition = 1, endPosition = 2, text' = ''RR''\<rparr>]
     \<noteq> patch ''abcd''
         [\<lparr>startPosition = 1, endPosition = 2, text' = ''RR''\<rparr>,
          \<lparr>startPosition = 2, endPosition = 2, text' = ''I''\<rparr>]"
  by (simp add: patch_def sortInReverseOrder_def applyReplacements_def applyStep_def
      substring_def substringFrom_def clampIndex_def rangeValid_def disjointRanges_def)

text \<open>
  C2, amended. For replacements that do not overlap, lie within the text and end at
  pairwise different positions, the patched text is the same for every order in which the
  replacements are handed to the loop.
\<close>

theorem patch_order_independent:
  assumes "mset rs = mset qs"
    and "nonOverlapping rs"
    and "list_all (rangeValid source) rs"
    and "distinct (map endPosition rs)"
  shows "patch source rs = patch source qs"
  unfolding patch_def using sortInReverseOrder_perm[OF assms(1) assms(4)] by simp

theorem patch_order_independent_witness:
  "mset [\<lparr>startPosition = 0, endPosition = 1, text' = ''XX''\<rparr>,
         \<lparr>startPosition = 3, endPosition = 4, text' = ''YYY''\<rparr>]
     = mset [\<lparr>startPosition = 3, endPosition = 4, text' = ''YYY''\<rparr>,
             \<lparr>startPosition = 0, endPosition = 1, text' = ''XX''\<rparr>] \<and>
   nonOverlapping
     [\<lparr>startPosition = 0, endPosition = 1, text' = ''XX''\<rparr>,
      \<lparr>startPosition = 3, endPosition = 4, text' = ''YYY''\<rparr>] \<and>
   list_all (rangeValid ''abcdef'')
     [\<lparr>startPosition = 0, endPosition = 1, text' = ''XX''\<rparr>,
      \<lparr>startPosition = 3, endPosition = 4, text' = ''YYY''\<rparr>] \<and>
   distinct (map endPosition
     [\<lparr>startPosition = 0, endPosition = 1, text' = ''XX''\<rparr>,
      \<lparr>startPosition = 3, endPosition = 4, text' = ''YYY''\<rparr>]) \<and>
   patch ''abcdef''
     [\<lparr>startPosition = 0, endPosition = 1, text' = ''XX''\<rparr>,
      \<lparr>startPosition = 3, endPosition = 4, text' = ''YYY''\<rparr>]
     = patch ''abcdef''
         [\<lparr>startPosition = 3, endPosition = 4, text' = ''YYY''\<rparr>,
          \<lparr>startPosition = 0, endPosition = 1, text' = ''XX''\<rparr>]"
proof -
  let ?a = "\<lparr>startPosition = 0, endPosition = 1, text' = ''XX''\<rparr>"
  let ?b = "\<lparr>startPosition = 3, endPosition = 4, text' = ''YYY''\<rparr>"
  have h1: "mset [?a, ?b] = mset [?b, ?a]" by simp
  have h2: "nonOverlapping [?a, ?b]" by (simp add: disjointRanges_def)
  have h3: "list_all (rangeValid ''abcdef'') [?a, ?b]" by (simp add: rangeValid_def)
  have h4: "distinct (map endPosition [?a, ?b])" by simp
  show ?thesis
    using h1 h2 h3 h4 patch_order_independent[OF h1 h2 h3 h4] by simp
qed

section \<open>Properties of the path functions\<close>

lemma splitSlash_nonempty: "splitSlash s \<noteq> []"
  by (induction s) auto

lemma splitSlash_append:
  "splitSlash (a @ CHR ''/'' # b) = splitSlash a @ splitSlash b"
proof (induction a)
  case Nil
  then show ?case by simp
next
  case (Cons c cs)
  then show ?case using splitSlash_nonempty[of cs] by (cases "splitSlash cs") auto
qed

lemma dirname_unfold:
  assumes "path \<noteq> []" and "hd path \<noteq> CHR ''/''"
  shows "dirname path =
     (if dropWhile (\<lambda>c. c \<noteq> CHR ''/'') (dropWhile (\<lambda>c. c = CHR ''/'') (rev (tl path))) = []
      then ''.''
      else take (length (dropWhile (\<lambda>c. c \<noteq> CHR ''/'')
                  (dropWhile (\<lambda>c. c = CHR ''/'') (rev (tl path))))) path)"
  unfolding dirname_def Let_def using assms by (simp only: if_False simp_thms)

lemma dirname_relative:
  assumes "\<not> isAbsolute path" and "dirname path \<noteq> ''.''"
  shows "\<exists>rest. path = dirname path @ CHR ''/'' # rest" and "\<not> isAbsolute (dirname path)"
proof -
  define X where "X = rev (tl path)"
  define Y where "Y = dropWhile (\<lambda>c. c = CHR ''/'') X"
  define S where "S = dropWhile (\<lambda>c. c \<noteq> CHR ''/'') Y"
  have ne: "path \<noteq> []" using assms(2) by (auto simp: dirname_def)
  have nr: "hd path \<noteq> CHR ''/''" using assms(1) ne by (simp add: isAbsolute_def)
  have du: "dirname path = (if S = [] then ''.'' else take (length S) path)"
    unfolding S_def Y_def X_def by (rule dirname_unfold[OF ne nr])
  have sne: "S \<noteq> []" using du assms(2) by auto
  have d: "dirname path = take (length S) path" using du sne by simp
  have hS: "hd S = CHR ''/''" using hd_dropWhile[of "\<lambda>c. c \<noteq> CHR ''/''" Y] sne
    unfolding S_def by blast
  obtain T where T: "S = CHR ''/'' # T" using sne hS by (cases S) auto
  have "X = takeWhile (\<lambda>c. c = CHR ''/'') X @ Y"
    unfolding Y_def by (rule takeWhile_dropWhile_id[symmetric])
  moreover have "Y = takeWhile (\<lambda>c. c \<noteq> CHR ''/'') Y @ S"
    unfolding S_def by (rule takeWhile_dropWhile_id[symmetric])
  ultimately obtain A where A: "X = A @ S" by (metis append.assoc)
  have "tl path = rev X" unfolding X_def by simp
  also have "\<dots> = rev T @ CHR ''/'' # rev A" unfolding A T by simp
  finally have tp: "tl path = rev T @ CHR ''/'' # rev A" .
  have p: "path = (hd path # rev T) @ CHR ''/'' # rev A"
    using ne tp by (cases path) auto
  have "length S = length (hd path # rev T)" using T by simp
  then have dd: "dirname path = hd path # rev T"
    using d p by (metis append_eq_conv_conj)
  show "\<exists>rest. path = dirname path @ CHR ''/'' # rest" using p dd by auto
  show "\<not> isAbsolute (dirname path)" using dd nr by (simp add: isAbsolute_def)
qed

lemma dirname_chain:
  "\<not> isAbsolute dir \<Longrightarrow> \<exists>n \<le> length (splitSlash dir). (dirname ^^ n) dir = ''.''"
proof (induction "length (splitSlash dir)" arbitrary: dir rule: less_induct)
  case less
  show ?case
  proof (cases "dir = ''.''")
    case True
    then have "(dirname ^^ 0) dir = ''.''" by simp
    then show ?thesis by blast
  next
    case False
    show ?thesis
    proof (cases "dirname dir = ''.''")
      case True
      then have "(dirname ^^ 1) dir = ''.''" by simp
      moreover have "1 \<le> length (splitSlash dir)"
        using splitSlash_nonempty[of dir] by (cases "splitSlash dir") auto
      ultimately show ?thesis by blast
    next
      case nd: False
      from dirname_relative[OF less.prems nd] obtain rest where
        p: "dir = dirname dir @ CHR ''/'' # rest" and r: "\<not> isAbsolute (dirname dir)" by blast
      have "length (splitSlash dir) = length (splitSlash (dirname dir)) + length (splitSlash rest)"
        using p splitSlash_append[of "dirname dir" rest] by simp
      moreover have "0 < length (splitSlash rest)"
        using splitSlash_nonempty[of rest] by simp
      ultimately have lt: "length (splitSlash (dirname dir)) < length (splitSlash dir)" by simp
      from less.hyps[OF lt r] obtain n where
        n: "n \<le> length (splitSlash (dirname dir))" "(dirname ^^ n) (dirname dir) = ''.''" by blast
      have "(dirname ^^ Suc n) dir = ''.''" using n(2) by (simp add: funpow_swap1)
      moreover have "Suc n \<le> length (splitSlash dir)" using n(1) lt by simp
      ultimately show ?thesis by blast
    qed
  qed
qed

lemma splitSlash_noslash: "CHR ''/'' \<notin> set s \<Longrightarrow> splitSlash s = [s]"
  by (induction s) auto

lemma splitSlash_segments: "s \<in> set (splitSlash p) \<Longrightarrow> CHR ''/'' \<notin> set s"
proof (induction p arbitrary: s)
  case Nil
  then show ?case by simp
next
  case (Cons c cs)
  then show ?case
    using splitSlash_nonempty[of cs]
    by (cases "splitSlash cs") (auto split: if_splits)
qed

lemma splitSlash_joinSlash:
  "segs \<noteq> [] \<Longrightarrow> \<forall>s \<in> set segs. CHR ''/'' \<notin> set s \<Longrightarrow> splitSlash (joinSlash segs) = segs"
proof (induction segs rule: joinSlash.induct)
  case 1
  then show ?case by simp
next
  case (2 s)
  then show ?case by (simp add: splitSlash_noslash)
next
  case (3 s t ss)
  then show ?case by (simp add: splitSlash_append splitSlash_noslash)
qed

lemma joinSlash_eq_Nil: "list_all plainSegment segs \<Longrightarrow> joinSlash segs = [] \<longleftrightarrow> segs = []"
  by (induction segs rule: joinSlash.induct) (auto simp: plainSegment_def)

lemma normalizeSegments_append:
  "normalizeSegments a res (xs @ ys) = normalizeSegments a (normalizeSegments a res xs) ys"
  by (induction xs arbitrary: res) auto

lemma normalizeSegments_plain:
  "list_all plainSegment xs \<Longrightarrow> normalizeSegments a res xs = res @ xs"
  by (induction xs arbitrary: res) (auto simp: plainSegment_def)

lemma list_all_butlast: "list_all P xs \<Longrightarrow> list_all P (butlast xs)"
  by (induction xs) auto

lemma normalizeSegments_False_plain:
  "list_all plainSegment res \<Longrightarrow> \<forall>s \<in> set xs. CHR ''/'' \<notin> set s \<Longrightarrow>
     list_all plainSegment (normalizeSegments False res xs)"
proof (induction xs arbitrary: res)
  case Nil
  then show ?case by simp
next
  case (Cons s ss)
  then show ?case by (auto simp: list_all_butlast plainSegment_def)
qed

lemma normalizeSegments_dotdots:
  "list_all plainSegment res \<Longrightarrow>
     normalizeSegments False res (replicate k ''..'') = take (length res - k) res"
proof (induction k arbitrary: res)
  case 0
  then show ?case by simp
next
  case (Suc k)
  show ?case
  proof (cases "res = []")
    case True
    with Suc.IH[of "[]"] show ?thesis by simp
  next
    case False
    then have "last res \<in> set res" by simp
    with Suc.prems have "last res \<noteq> ''..''" by (auto simp: list_all_iff plainSegment_def)
    moreover have "list_all plainSegment (butlast res)" using Suc.prems by (rule list_all_butlast)
    moreover have "take (length res - Suc k) (butlast res) = take (length res - Suc k) res"
      using False by (simp add: take_butlast)
    ultimately show ?thesis using False Suc.IH[of "butlast res"] by simp
  qed
qed

lemma resolveSegments_plain: "list_all plainSegment (resolveSegments wd path)"
  unfolding resolveSegments_def
  by (rule normalizeSegments_False_plain) (auto dest: splitSlash_segments)

lemma resolveSegments_absolute:
  "isAbsolute path \<Longrightarrow> resolveSegments wd path = normalizeSegments False [] (splitSlash path)"
  by (simp add: resolveSegments_def)

lemma plain_noslash: "list_all plainSegment xs \<Longrightarrow> \<forall>s \<in> set xs. CHR ''/'' \<notin> set s"
  by (auto simp: list_all_iff plainSegment_def)

lemma normalize_absolute:
  assumes "isAbsolute path"
  shows "isAbsolute (normalize path)"
    and "normalizeSegments False [] (splitSlash (normalize path))
           = normalizeSegments False [] (splitSlash path)"
proof -
  define M where "M = normalizeSegments False [] (splitSlash path)"
  have ne: "path \<noteq> []" using assms by (auto simp: isAbsolute_def)
  have pl: "list_all plainSegment M"
    unfolding M_def by (rule normalizeSegments_False_plain) (auto dest: splitSlash_segments)
  have n: "normalize path = CHR ''/'' # joinSlash M \<or>
           (joinSlash M \<noteq> [] \<and> normalize path = CHR ''/'' # joinSlash M @ ''/'')"
    using assms ne by (auto simp: normalize_def Let_def M_def)
  show "isAbsolute (normalize path)" using n by (auto simp: isAbsolute_def)
  have idm: "normalizeSegments False [] M = M" using normalizeSegments_plain[OF pl, of False "[]"] by simp
  have sp: "M \<noteq> [] \<Longrightarrow> splitSlash (joinSlash M) = M"
    using splitSlash_joinSlash plain_noslash[OF pl] by blast
  from n show "normalizeSegments False [] (splitSlash (normalize path)) = M"
  proof
    assume a: "normalize path = CHR ''/'' # joinSlash M"
    show ?thesis
    proof (cases "M = []")
      case True
      with a show ?thesis by simp
    next
      case False
      with a sp idm show ?thesis by simp
    qed
  next
    assume a: "joinSlash M \<noteq> [] \<and> normalize path = CHR ''/'' # joinSlash M @ ''/''"
    then have "M \<noteq> []" by auto
    then have "splitSlash (joinSlash M @ ''/'') = M @ [[]]"
      using sp splitSlash_append[of "joinSlash M" "[]"] by simp
    with a idm show ?thesis by (simp add: normalizeSegments_append)
  qed
qed

lemma join_absolute:
  assumes "isAbsolute a"
  shows "isAbsolute (join a b)"
    and "resolveSegments wd (join a b) = normalizeSegments False (resolveSegments wd a) (splitSlash b)"
proof -
  define joined where "joined = (if b = [] then a else a @ ''/'' @ b)"
  have ne: "a \<noteq> []" using assms by (auto simp: isAbsolute_def)
  have j: "join a b = normalize joined" using ne by (simp add: join_def joined_def Let_def)
  have ja: "isAbsolute joined" using assms ne by (auto simp: joined_def isAbsolute_def)
  show abs: "isAbsolute (join a b)" using j normalize_absolute(1)[OF ja] by simp
  have sj: "normalizeSegments False [] (splitSlash joined)
              = normalizeSegments False (normalizeSegments False [] (splitSlash a)) (splitSlash b)"
  proof (cases "b = []")
    case True
    then show ?thesis by (simp add: joined_def)
  next
    case False
    then have "splitSlash joined = splitSlash a @ splitSlash b"
      using splitSlash_append[of a b] by (simp add: joined_def)
    then show ?thesis by (simp add: normalizeSegments_append)
  qed
  show "resolveSegments wd (join a b) = normalizeSegments False (resolveSegments wd a) (splitSlash b)"
    using resolveSegments_absolute[OF abs] resolveSegments_absolute[OF assms]
      j normalize_absolute(2)[OF ja] sj by simp
qed

lemma fixDir_segments:
  assumes "isAbsolute wd"
  shows "resolveSegments wd (join wd ''fixes'') = resolveSegments wd wd @ [''fixes'']"
  using join_absolute(2)[OF assms, of wd "''fixes''"] by simp

lemma commonLength_le: "commonLength xs ys \<le> length xs \<and> commonLength xs ys \<le> length ys"
  by (induction xs ys rule: commonLength.induct) auto

lemma mirrored_length:
  assumes "isAbsolute wd"
  shows "length (resolveSegments wd (join (join wd ''fixes'') (relative wd wd name)))
           = Suc (length (resolveSegments wd name))"
proof -
  define rc where "rc = resolveSegments wd wd"
  define rf where "rf = resolveSegments wd name"
  define n where "n = commonLength rc rf"
  define segs where "segs = replicate (length rc - n) ''..'' @ drop n rf"
  have rel: "relative wd wd name = joinSlash segs"
    by (simp add: relative_def Let_def rc_def rf_def n_def segs_def)
  have prc: "list_all plainSegment rc" and prF: "list_all plainSegment rf"
    unfolding rc_def rf_def by (rule resolveSegments_plain)+
  have pfix: "list_all plainSegment (rc @ [''fixes''])" using prc by (simp add: plainSegment_def)
  have pdrop: "list_all plainSegment (drop n rf)" using prF by (auto simp: list_all_iff dest: in_set_dropD)
  have nle: "n \<le> length rc" "n \<le> length rf" using commonLength_le[of rc rf] by (simp_all add: n_def)
  have fa: "isAbsolute (join wd ''fixes'')" by (rule join_absolute(1)[OF assms])
  have m: "resolveSegments wd (join (join wd ''fixes'') (relative wd wd name))
        = normalizeSegments False (rc @ [''fixes'']) (splitSlash (joinSlash segs))"
    using join_absolute(2)[OF fa] fixDir_segments[OF assms] rel by (simp add: rc_def)
  show ?thesis
  proof (cases "segs = []")
    case True
    then have "length rc = n" "length rf = n" using nle by (auto simp: segs_def)
    then show ?thesis using m True by (simp add: rf_def[symmetric])
  next
    case False
    have "\<forall>s \<in> set segs. CHR ''/'' \<notin> set s"
      using plain_noslash[OF pdrop] by (auto simp: segs_def)
    then have "splitSlash (joinSlash segs) = segs" using False splitSlash_joinSlash by blast
    then have "resolveSegments wd (join (join wd ''fixes'') (relative wd wd name))
        = take (length (rc @ [''fixes'']) - (length rc - n)) (rc @ [''fixes'']) @ drop n rf"
      using m normalizeSegments_dotdots[OF pfix, of "length rc - n"]
        normalizeSegments_plain[OF pdrop]
      by (simp add: segs_def normalizeSegments_append)
    then show ?thesis using nle by (simp add: rf_def[symmetric])
  qed
qed


section \<open>Properties of the file system calls and of mkdirParent\<close>

lemma mkdirSync_cwd: "mkdirSync p w = (r, w') \<Longrightarrow> cwd w' = cwd w"
  by (auto simp: mkdirSync_def logEvent_def Let_def split: if_splits option.splits Node.splits)

lemma mkdirSync_ok:
  assumes "mkdirSync p w = (Inr u, w')"
  shows "files w (resolveSegments (cwd w) p) = None"
    and "files w (butlast (resolveSegments (cwd w) p)) = Some Dir"
    and "files w' = (files w)(resolveSegments (cwd w) p \<mapsto> Dir)"
    and "trace w' = trace w @ [MkdirSync (resolveSegments (cwd w) p)]"
  using assms
  by (auto simp: mkdirSync_def logEvent_def Let_def split: if_splits option.splits Node.splits)

lemma mkdirSync_fail:
  assumes "mkdirSync p w = (Inl e, w')"
  shows "files w' = files w"
  using assms
  by (auto simp: mkdirSync_def logEvent_def Let_def split: if_splits option.splits Node.splits)

lemma mkdirSync_trace:
  "mkdirSync p w = (r, w') \<Longrightarrow> trace w' = trace w @ [MkdirSync (resolveSegments (cwd w) p)]"
  by (auto simp: mkdirSync_def logEvent_def Let_def split: if_splits option.splits Node.splits)

lemma mkdirSync_onlyDirs: "mkdirSync p w = (r, w') \<Longrightarrow> onlyDirsAdded w w'"
  by (auto simp: onlyDirsAdded_def mkdirSync_def logEvent_def Let_def
      split: if_splits option.splits Node.splits)

lemma onlyDirsAdded_refl: "onlyDirsAdded w w"
  by (simp add: onlyDirsAdded_def)

lemma onlyDirsAdded_trans: "onlyDirsAdded w w1 \<Longrightarrow> onlyDirsAdded w1 w2 \<Longrightarrow> onlyDirsAdded w w2"
  unfolding onlyDirsAdded_def by metis

lemma mkdirSync_wellFormed:
  assumes "wellFormed w" and "mkdirSync p w = (r, w')"
  shows "wellFormed w'"
proof (cases r)
  case (Inl e)
  then have "files w' = files w" using assms(2) mkdirSync_fail by blast
  moreover have "cwd w' = cwd w" using assms(2) by (rule mkdirSync_cwd)
  ultimately show ?thesis using assms(1) by (simp add: wellFormed_def)
next
  case (Inr u)
  let ?k = "resolveSegments (cwd w) p"
  from Inr assms(2) have ok: "mkdirSync p w = (Inr u, w')" by simp
  note f = mkdirSync_ok[OF ok]
  have c: "cwd w' = cwd w" using assms(2) by (rule mkdirSync_cwd)
  have ne: "\<And>j. files w j = Some Dir \<Longrightarrow> j \<noteq> ?k" using f(1) by auto
  show ?thesis
    unfolding wellFormed_def
  proof (intro conjI ballI)
    show "files w' [] = Some Dir" using assms(1) f ne by (auto simp: wellFormed_def)
    show "isAbsolute (cwd w')" using assms(1) c by (simp add: wellFormed_def)
    show "files w' (resolveSegments (cwd w') (cwd w')) = Some Dir"
      using assms(1) c f(3) ne by (auto simp: wellFormed_def)
    fix j assume "j \<in> dom (files w')"
    then have "j = ?k \<or> j \<in> dom (files w)" using f(3) by auto
    then show "files w' (butlast j) = Some Dir"
    proof
      assume "j = ?k" then show ?thesis using f(2) f(3) ne by auto
    next
      assume "j \<in> dom (files w)"
      then have "files w (butlast j) = Some Dir" using assms(1) by (auto simp: wellFormed_def)
      then show ?thesis using f(3) ne by auto
    qed
  qed
qed

lemma mkdirParent_inv:
  "mkdirParent depth baseDir dir w = Some (r, w') \<Longrightarrow>
     cwd w' = cwd w \<and> onlyDirsAdded w w' \<and> (wellFormed w \<longrightarrow> wellFormed w')"
proof (induction depth arbitrary: dir r w')
  case 0
  then show ?case by simp
next
  case (Suc depth)
  show ?case
  proof (cases "dir = ''.'' \<or> existsSync (join baseDir dir) w")
    case True
    with Suc.prems show ?thesis by (auto simp: onlyDirsAdded_refl)
  next
    case False
    with Suc.prems obtain r1 w1 where
      rec: "mkdirParent depth baseDir (dirname dir) w = Some (r1, w1)"
      by (auto split: option.splits)
    note ih = Suc.IH[OF rec]
    show ?thesis
    proof (cases r1)
      case (Inl e)
      with False rec Suc.prems have "w' = w1" by simp
      with ih show ?thesis by simp
    next
      case (Inr u)
      with False rec Suc.prems have mk: "mkdirSync (join baseDir dir) w1 = (r, w')" by simp
      show ?thesis
        using ih mkdirSync_cwd[OF mk] mkdirSync_onlyDirs[OF mk] mkdirSync_wellFormed[OF _ mk]
        by (auto intro: onlyDirsAdded_trans)
    qed
  qed
qed


lemma mkdirParent_target:
  assumes "mkdirParent depth baseDir dir w = Some (Inr u, w')" and "dir \<noteq> ''.''"
  shows "files w' (resolveSegments (cwd w) (join baseDir dir)) \<noteq> None"
proof (cases depth)
  case 0
  with assms show ?thesis by simp
next
  case (Suc d)
  show ?thesis
  proof (cases "existsSync (join baseDir dir) w")
    case True
    with Suc assms have "w' = w" by simp
    with True show ?thesis by (simp add: existsSync_def)
  next
    case False
    with Suc assms obtain u1 w1 where
      rec: "mkdirParent d baseDir (dirname dir) w = Some (Inr u1, w1)"
      and mk: "mkdirSync (join baseDir dir) w1 = (Inr u, w')"
      by (auto split: option.splits sum.splits)
    have "cwd w1 = cwd w" using mkdirParent_inv[OF rec] by simp
    then show ?thesis using mkdirSync_ok(3)[OF mk] by simp
  qed
qed




lemma mkdirParent_returns:
  "(dirname ^^ n) dir = ''.'' \<Longrightarrow> n < depth \<Longrightarrow> \<exists>r. mkdirParent depth baseDir dir w = Some r"
proof (induction n arbitrary: dir depth w)
  case 0
  then obtain d where "depth = Suc d" by (cases depth) auto
  with 0 show ?case by simp
next
  case (Suc n)
  then obtain d where d: "depth = Suc d" "n < d" by (cases depth) auto
  have "(dirname ^^ n) (dirname dir) = ''.''"
    using Suc.prems(1) by (simp add: funpow_swap1)
  from Suc.IH[OF this d(2)] obtain r where
    "mkdirParent d baseDir (dirname dir) w = Some r" by blast
  then show ?case using d(1) by (auto split: prod.splits sum.splits)
qed

lemmas path_eval =
  resolveSegments_def isAbsolute_def join_def normalize_def dirname_def Let_def


lemma exampleWorld_mkdirParent:
  "\<exists>w'. mkdirParent 5 ''/w/fixes'' ''a/b/c/d'' exampleWorld = Some (Inr (), w')"
  by (simp add: eval_nat_numeral exampleWorld_def existsSync_def mkdirSync_def logEvent_def
      path_eval)



text \<open>
  C4. When a call of \<open>mkdirParent\<close> has returned, a second call with the same
  arguments returns too, without an error, and leaves the process as the first call left
  it: the file system is the same and no call of \<open>mkdirSync\<close> was added to the trace.
\<close>

theorem mkdirParent_idempotent:
  assumes "mkdirParent depth baseDir dir w = Some (Inr (), w1)"
  shows "mkdirParent depth baseDir dir w1 = Some (Inr (), w1)"
proof (cases depth)
  case 0
  with assms show ?thesis by simp
next
  case (Suc d)
  show ?thesis
  proof (cases "dir = ''.''")
    case True
    then show ?thesis using Suc by simp
  next
    case False
    have "cwd w1 = cwd w" using mkdirParent_inv[OF assms] by simp
    then have "existsSync (join baseDir dir) w1"
      using mkdirParent_target[OF assms False] by (simp add: existsSync_def)
    then show ?thesis using Suc by simp
  qed
qed

theorem mkdirParent_idempotent_witness:
  "\<exists>w1. mkdirParent 5 ''/w/fixes'' ''a/b/c/d'' exampleWorld = Some (Inr (), w1) \<and>
        mkdirParent 5 ''/w/fixes'' ''a/b/c/d'' w1 = Some (Inr (), w1)"
proof -
  obtain w1 where h: "mkdirParent 5 ''/w/fixes'' ''a/b/c/d'' exampleWorld = Some (Inr (), w1)"
    using exampleWorld_mkdirParent by blast
  show ?thesis using h mkdirParent_idempotent[OF h] by blast
qed

text \<open>
  C10. When \<open>n\<close> steps of \<open>dirname\<close> take \<open>dir\<close> to \<open>.\<close>, every call of
  \<open>mkdirParent\<close> on \<open>dir\<close> that may nest more than \<open>n\<close> calls comes back, with a
  result or with the error of a file system call. Every relative path is taken to \<open>.\<close>
  by at most as many steps as it has segments.
\<close>

theorem mkdirParent_terminates:
  "((dirname ^^ n) dir = ''.'' \<longrightarrow> (\<forall>depth > n. \<exists>r. mkdirParent depth baseDir dir w = Some r)) \<and>
   (\<not> isAbsolute dir \<longrightarrow> (\<exists>n \<le> length (splitSlash dir). (dirname ^^ n) dir = ''.''))"
  using mkdirParent_returns dirname_chain by blast

theorem mkdirParent_terminates_witness:
  "(dirname ^^ 3) ''a/b/c'' = ''.'' \<and>
   (\<exists>r. mkdirParent 4 ''/w/fixes'' ''a/b/c'' exampleWorld = Some r) \<and>
   \<not> isAbsolute ''a/b/c'' \<and>
   (\<exists>n \<le> length (splitSlash ''a/b/c''). (dirname ^^ n) ''a/b/c'' = ''.'')"
proof -
  have h1: "(dirname ^^ 3) ''a/b/c'' = ''.''" by (simp add: eval_nat_numeral dirname_def)
  have h2: "\<not> isAbsolute ''a/b/c''" by (simp add: isAbsolute_def)
  have h3: "(3::nat) < 4" by simp
  show ?thesis
    using h1 h2 h3 mkdirParent_terminates[of 3 "''a/b/c''" "''/w/fixes''" exampleWorld] by blast
qed

section \<open>Properties of the pipeline\<close>

lemma mkdirParent_events:
  "mkdirParent depth baseDir dir w = Some (r, w') \<Longrightarrow>
     \<exists>ks. trace w' = trace w @ map MkdirSync ks \<and> (\<forall>k \<in> set ks. files w k = None)"
proof (induction depth arbitrary: dir r w')
  case 0
  then show ?case by simp
next
  case (Suc depth)
  show ?case
  proof (cases "dir = ''.'' \<or> existsSync (join baseDir dir) w")
    case True
    with Suc.prems have "trace w' = trace w @ map MkdirSync []" by auto
    then show ?thesis by (metis empty_iff list.set(1))
  next
    case False
    with Suc.prems obtain r1 w1 where
      rec: "mkdirParent depth baseDir (dirname dir) w = Some (r1, w1)"
      by (auto split: option.splits)
    from Suc.IH[OF rec] obtain ks where
      ks: "trace w1 = trace w @ map MkdirSync ks" "\<forall>k \<in> set ks. files w k = None" by blast
    show ?thesis
    proof (cases r1)
      case (Inl e)
      with False rec Suc.prems have "w' = w1" by simp
      with ks show ?thesis by blast
    next
      case (Inr u)
      with False rec Suc.prems have mk: "mkdirSync (join baseDir dir) w1 = (r, w')" by simp
      let ?k = "resolveSegments (cwd w) (join baseDir dir)"
      have c: "cwd w1 = cwd w" using mkdirParent_inv[OF rec] by simp
      have "trace w' = trace w @ map MkdirSync (ks @ [?k])"
        using mkdirSync_trace[OF mk] ks(1) c by simp
      moreover have "files w ?k = None" using False by (simp add: existsSync_def)
      then have "\<forall>k \<in> set (ks @ [?k]). files w k = None" using ks(2) by auto
      ultimately show ?thesis by blast
    qed
  qed
qed

lemma writeFileSync_effect:
  assumes "writeFileSync path data w = (r, w')"
  shows "cwd w' = cwd w"
    and "trace w' = trace w @ [WriteFileSync (resolveSegments (cwd w) path) data]"
    and "\<forall>k. k \<noteq> resolveSegments (cwd w) path \<longrightarrow> files w' k = files w k"
    and "r = Inr () \<longrightarrow> files w' (resolveSegments (cwd w) path) = Some (File data)"
    and "files w (resolveSegments (cwd w) path) \<noteq> None \<longrightarrow>
           files w' (resolveSegments (cwd w) path) \<noteq> None"
  using assms
  by (auto simp: writeFileSync_def logEvent_def Let_def split: if_splits option.splits Node.splits)

lemma logEvent_simps [simp]:
  "trace (logEvent e w) = trace w @ [e]" "cwd (logEvent e w) = cwd w"
  "files (logEvent e w) = files w"
  by (simp_all add: logEvent_def)

lemma analyzeFile_None:
  "getFullText tools newProgram file = None \<Longrightarrow>
     analyzeFile tools depth fixDir newProgram file w = (Inl TypeError, w)"
  by (simp add: analyzeFile_def)

lemma analyzeFile_clean:
  assumes "getFullText tools newProgram file = Some source"
    and "\<not> failureCount (lint tools file source newProgram) > 0"
  shows "analyzeFile tools depth fixDir newProgram file w = (Inr (), logEvent (Lint file) w)"
  using assms by (simp add: analyzeFile_def Let_def)

lemma analyzeFile_nofix:
  assumes "getFullText tools newProgram file = Some source"
    and "failureCount (lint tools file source newProgram) > 0"
    and "accumulateFixReplacements (failures (lint tools file source newProgram)) = []"
  shows "analyzeFile tools depth fixDir newProgram file w =
     (Inr (), logEvent (ConsoleLog (output' (lint tools file source newProgram)))
                (logEvent (Lint file) w))"
  using assms by (simp add: analyzeFile_def Let_def)

lemma analyzeFile_fix:
  assumes "getFullText tools newProgram file = Some source"
    and "failureCount (lint tools file source newProgram) > 0"
    and "accumulateFixReplacements (failures (lint tools file source newProgram)) \<noteq> []"
  shows "analyzeFile tools depth fixDir newProgram file w =
     (case mkdirParent depth fixDir (dirname (relative (cwd w) (cwd w) file))
             (logEvent (ConsoleLog (''Creating fix '' @ relative (cwd w) (cwd w) file))
               (logEvent (ConsoleLog (output' (lint tools file source newProgram)))
                 (logEvent (Lint file) w))) of
        None \<Rightarrow> (Inl RangeError,
                 logEvent (ConsoleLog (''Creating fix '' @ relative (cwd w) (cwd w) file))
                   (logEvent (ConsoleLog (output' (lint tools file source newProgram)))
                     (logEvent (Lint file) w)))
      | Some (Inl e, w4) \<Rightarrow> (Inl e, w4)
      | Some (Inr _, w4) \<Rightarrow>
          writeFileSync (join fixDir (relative (cwd w) (cwd w) file))
            (patch source (accumulateFixReplacements (failures (lint tools file source newProgram))))
            w4)"
  using assms by (simp add: analyzeFile_def Let_def split: option.splits prod.splits sum.splits)

lemma analyzeFile_events:
  assumes "analyzeFile tools depth fixDir newProgram file w = (r, w')"
  shows "\<exists>evs. trace w' = trace w @ evs \<and> list_all analysisOrEmitEvent evs"
proof (cases "getFullText tools newProgram file")
  case None
  from assms[unfolded analyzeFile_None[OF None]] have "trace w' = trace w @ []" by simp
  then show ?thesis by (metis list.pred_inject(1))
next
  case (Some source)
  define result where "result = lint tools file source newProgram"
  define rs where "rs = accumulateFixReplacements (failures result)"
  define w3 where "w3 = logEvent (ConsoleLog (''Creating fix '' @ relative (cwd w) (cwd w) file))
     (logEvent (ConsoleLog (output' result)) (logEvent (Lint file) w))"
  consider (clean) "\<not> failureCount result > 0"
    | (nofix) "failureCount result > 0" "rs = []"
    | (withfix) "failureCount result > 0" "rs \<noteq> []" by blast
  then show ?thesis
  proof cases
    case clean
    from assms[unfolded analyzeFile_clean[OF Some clean[unfolded result_def]]]
    have "trace w' = trace w @ [Lint file]" by auto
    then show ?thesis by auto
  next
    case nofix
    from assms[unfolded analyzeFile_nofix[OF Some nofix[unfolded result_def rs_def]]]
    have "trace w' = trace w @ [Lint file, ConsoleLog (output' result)]"
      by (auto simp: result_def)
    then show ?thesis by auto
  next
    case withfix
    note eq = assms[unfolded analyzeFile_fix[OF Some withfix[unfolded result_def rs_def]],
        folded result_def, folded rs_def, folded w3_def]
    have t3: "trace w3 = trace w @ [Lint file, ConsoleLog (output' result),
        ConsoleLog (''Creating fix '' @ relative (cwd w) (cwd w) file)]"
      by (simp add: w3_def)
    show ?thesis
    proof (cases "mkdirParent depth fixDir (dirname (relative (cwd w) (cwd w) file)) w3")
      case None
      with eq have "w' = w3" by simp
      then show ?thesis using t3 by simp
    next
      case (Some a)
      obtain r4 w4 where a: "a = (r4, w4)" by (cases a)
      from mkdirParent_events[OF Some[unfolded a]] obtain ks where
        ks: "trace w4 = trace w3 @ map MkdirSync ks" by blast
      have m: "list_all analysisOrEmitEvent (map MkdirSync ks)" by (simp add: list_all_iff)
      show ?thesis
      proof (cases r4)
        case (Inl e)
        with eq Some a have "w' = w4" by simp
        then show ?thesis using ks t3 m by simp
      next
        case (Inr u)
        with eq Some a
        have "writeFileSync (join fixDir (relative (cwd w) (cwd w) file)) (patch source rs) w4 = (r, w')"
          by simp
        from writeFileSync_effect(2)[OF this] show ?thesis using ks t3 m by simp
      qed
    qed
  qed
qed

lemma andThen_Inl [simp]: "andThen (Inl e, w) f = (Inl e, w)"
  by (simp add: andThen_def)

lemma andThen_Inr [simp]: "andThen (Inr x, w) f = f x w"
  by (simp add: andThen_def)

lemma andThen_cases:
  assumes "andThen m f = (r, w')"
  obtains e where "m = (Inl e, w')" "r = Inl e"
  | x w1 where "m = (Inr x, w1)" "f x w1 = (r, w')"
proof -
  obtain a w1 where m: "m = (a, w1)" by (cases m)
  show thesis
  proof (cases a)
    case (Inl e)
    with m assms that(1) show thesis by simp
  next
    case (Inr x)
    with m assms that(2) show thesis by simp
  qed
qed

lemma analyzeFiles_events:
  "analyzeFiles tools depth fixDir newProgram names w = (r, w') \<Longrightarrow>
     \<exists>evs. trace w' = trace w @ evs \<and> list_all analysisOrEmitEvent evs"
proof (induction names arbitrary: w)
  case Nil
  then have "trace w' = trace w @ []" by simp
  then show ?case by (metis list.pred_inject(1))
next
  case (Cons name rest)
  from Cons.prems have
    "andThen (analyzeFile tools depth fixDir newProgram name w)
       (\<lambda>_. analyzeFiles tools depth fixDir newProgram rest) = (r, w')" by simp
  then show ?case
  proof (cases rule: andThen_cases)
    case (1 e)
    from analyzeFile_events[OF 1(1)] show ?thesis .
  next
    case (2 x w1)
    from analyzeFile_events[OF 2(1)] obtain evs1 where
      e1: "trace w1 = trace w @ evs1" "list_all analysisOrEmitEvent evs1" by blast
    from Cons.IH[OF 2(2)] obtain evs2 where
      e2: "trace w' = trace w1 @ evs2" "list_all analysisOrEmitEvent evs2" by blast
    have "trace w' = trace w @ (evs1 @ evs2)" using e1(1) e2(1) by simp
    moreover have "list_all analysisOrEmitEvent (evs1 @ evs2)" using e1(2) e2(2) by simp
    ultimately show ?thesis by blast
  qed
qed

lemma makeFixDir_events:
  assumes "makeFixDir fixDir w = (r, w')"
  shows "\<exists>evs. trace w' = trace w @ evs \<and> list_all analysisOrEmitEvent evs"
proof (cases "existsSync fixDir w")
  case True
  with assms have "trace w' = trace w @ []" by (simp add: makeFixDir_def)
  then show ?thesis by (metis list.pred_inject(1))
next
  case False
  with assms have "mkdirSync fixDir w = (r, w')" by (simp add: makeFixDir_def)
  from mkdirSync_trace[OF this] show ?thesis by simp
qed

lemma analyzeAndPatch_events:
  assumes "analyzeAndPatch tools depth parsed newProgram w = (r, w')"
  shows "\<exists>evs. trace w' = trace w @ evs \<and> list_all analysisOrEmitEvent evs"
proof -
  from assms have
    "andThen (makeFixDir (join (cwd w) ''fixes'') w)
       (\<lambda>_. analyzeFiles tools depth (join (cwd w) ''fixes'') newProgram (fileNames parsed)) = (r, w')"
    by (simp add: analyzeAndPatch_def Let_def)
  then show ?thesis
  proof (cases rule: andThen_cases)
    case (1 e)
    from makeFixDir_events[OF 1(1)] show ?thesis .
  next
    case (2 x w1)
    from makeFixDir_events[OF 2(1)] obtain evs1 where
      e1: "trace w1 = trace w @ evs1" "list_all analysisOrEmitEvent evs1" by blast
    from analyzeFiles_events[OF 2(2)] obtain evs2 where
      e2: "trace w' = trace w1 @ evs2" "list_all analysisOrEmitEvent evs2" by blast
    have "trace w' = trace w @ (evs1 @ evs2)" using e1(1) e2(1) by simp
    moreover have "list_all analysisOrEmitEvent (evs1 @ evs2)" using e1(2) e2(2) by simp
    ultimately show ?thesis by blast
  qed
qed

lemma runEffect_trace: "runEffect f w = (r, w') \<Longrightarrow> trace w' = trace w"
  by (auto simp: runEffect_def split: prod.splits)

lemma emitAll_events:
  assumes "emitAll tools ngOptions newProgram w = (r, w')"
  shows "\<exists>evs. trace w' = trace w @ evs \<and> list_all analysisOrEmitEvent evs"
proof -
  from assms have
    "andThen (runEffect (emitTsickle tools newProgram) (logEvent EmitPrimary w))
       (\<lambda>_ w1. if \<not> skipMetadataEmit ngOptions
                then runEffect (emitMetadata tools newProgram) (logEvent EmitMetadata w1)
                else (Inr (), w1)) = (r, w')"
    by (simp add: emitAll_def)
  then show ?thesis
  proof (cases rule: andThen_cases)
    case (1 e)
    from runEffect_trace[OF 1(1)] have "trace w' = trace w @ [EmitPrimary]" by simp
    then show ?thesis by simp
  next
    case (2 x w1)
    from runEffect_trace[OF 2(1)] have t1: "trace w1 = trace w @ [EmitPrimary]" by simp
    show ?thesis
    proof (cases "skipMetadataEmit ngOptions")
      case True
      with 2(2) t1 have "trace w' = trace w @ [EmitPrimary]" by simp
      then show ?thesis by simp
    next
      case False
      with 2(2) have "runEffect (emitMetadata tools newProgram) (logEvent EmitMetadata w1) = (r, w')"
        by simp
      from runEffect_trace[OF this] t1 have "trace w' = trace w @ [EmitPrimary, EmitMetadata]"
        by simp
      then show ?thesis by simp
    qed
  qed
qed

lemma afterCodegen_events:
  assumes "afterCodegen tools depth parsed ngOptions program w = (r, w')"
  shows "\<exists>rest. trace w' = trace w @ [RecreateProgram, TypeCheck] @ rest \<and>
               list_all analysisOrEmitEvent rest"
proof -
  define newProgram where
    "newProgram = createProgram tools (fileNames parsed) (options parsed) (Some program) (files w)"
  define w2 where "w2 = logEvent TypeCheck (logEvent RecreateProgram w)"
  have t2: "trace w2 = trace w @ [RecreateProgram, TypeCheck]" by (simp add: w2_def)
  show ?thesis
  proof (cases "typeCheck tools newProgram")
    case (Inl e)
    with assms have "w' = w2" by (simp add: afterCodegen_def Let_def newProgram_def w2_def)
    with t2 have "trace w' = trace w @ [RecreateProgram, TypeCheck] @ []" by simp
    then show ?thesis by (metis list.pred_inject(1))
  next
    case (Inr u)
    with assms have
      "andThen (analyzeAndPatch tools depth parsed newProgram w2)
         (\<lambda>_. emitAll tools ngOptions newProgram) = (r, w')"
      by (simp add: afterCodegen_def Let_def newProgram_def w2_def)
    then show ?thesis
    proof (cases rule: andThen_cases)
      case (1 e)
      from analyzeAndPatch_events[OF 1(1)] t2 show ?thesis by auto
    next
      case (2 x w3)
      from analyzeAndPatch_events[OF 2(1)] obtain evs1 where
        e1: "trace w3 = trace w2 @ evs1" "list_all analysisOrEmitEvent evs1" by blast
      from emitAll_events[OF 2(2)] obtain evs2 where
        e2: "trace w' = trace w3 @ evs2" "list_all analysisOrEmitEvent evs2" by blast
      have "trace w' = trace w @ [RecreateProgram, TypeCheck] @ (evs1 @ evs2)"
        using e1(1) e2(1) t2 by simp
      moreover have "list_all analysisOrEmitEvent (evs1 @ evs2)" using e1(2) e2(2) by simp
      ultimately show ?thesis by blast
    qed
  qed
qed

lemma main_unfold:
  assumes "configLoad tools project basePathArg w = (Inr (parsed, ngOptions), w1)"
  shows "main tools depth project basePathArg codegen w =
     (case check (getOptionsDiagnostics tools
             (createProgram tools (fileNames parsed) (options parsed) None (files w1))) of
        Inl e \<Rightarrow> (Inl e, logEvent GetOptionsDiagnostics
                    (logEvent CreateProgram (logEvent CreateCompilerHost w1)))
      | Inr _ \<Rightarrow>
          andThen (runCodegen ngOptions
                     (createProgram tools (fileNames parsed) (options parsed) None (files w1))
                     codegen
                     (logEvent GetOptionsDiagnostics
                       (logEvent CreateProgram (logEvent CreateCompilerHost w1))))
            (\<lambda>_. afterCodegen tools depth parsed ngOptions
                   (createProgram tools (fileNames parsed) (options parsed) None (files w1))))"
  using assms by (simp add: main_def Let_def split: sum.splits)

lemma configLoad_world:
  assumes "configLoad tools project basePathArg w = (Inr x, w1)"
  shows "w1 = logEvent ReadConfiguration w"
proof -
  from assms have
    "andThen (lstatSyncIsFile project w)
       (\<lambda>isFile w0.
          let projectDir = (if isFile then dirname project else project);
              basePath1 = join (cwd w0)
                           (case basePathArg of
                              None \<Rightarrow> projectDir
                            | Some b \<Rightarrow> if b = [] then projectDir else b);
              w1 = logEvent ReadConfiguration w0
          in case readConfiguration tools project basePath1 (files w1) of
               Inl e \<Rightarrow> (Inl e, w1)
             | Inr (parsed, ngOptions) \<Rightarrow>
                 (Inr (parsed, ngOptions\<lparr>basePath := basePath1\<rparr>), w1)) = (Inr x, w1)"
    by (simp add: configLoad_def)
  then show ?thesis
  proof (cases rule: andThen_cases)
    case (1 e)
    then show ?thesis by simp
  next
    case (2 isFile w0)
    have "w0 = w" using 2(1)
      by (auto simp: lstatSyncIsFile_def split: option.splits Node.splits)
    with 2(2) show ?thesis by (auto simp: Let_def split: sum.splits prod.splits)
  qed
qed

lemma runCodegen_skip:
  "skipTemplateCodegen ngOptions \<or> codegen = None \<Longrightarrow>
     runCodegen ngOptions program codegen w = (Inr (), w)"
  by (auto simp: runCodegen_def)

text \<open>
  C5. When the configuration has been read and the first program has option
  diagnostics, \<open>main\<close> ends rejected right after the query of the diagnostics: the
  process is the one it started from but for the four calls up to that query in its
  trace. The file system is untouched, nothing was logged, and neither the code
  generation, nor the second program, the type check, the linter, a write or an emitter
  was called.
\<close>

theorem options_diagnostics_fatal:
  assumes "configLoad tools project basePathArg w = (Inr (parsed, ngOptions), w1)"
    and "getOptionsDiagnostics tools
           (createProgram tools (fileNames parsed) (options parsed) None (files w1)) \<noteq> []"
  shows "main tools depth project basePathArg codegen w =
     (Inl (OptionsDiagnosticError
            (getOptionsDiagnostics tools
               (createProgram tools (fileNames parsed) (options parsed) None (files w1)))),
      w\<lparr>trace := trace w @
           [ReadConfiguration, CreateCompilerHost, CreateProgram, GetOptionsDiagnostics]\<rparr>)"
proof -
  have w1: "w1 = logEvent ReadConfiguration w" by (rule configLoad_world[OF assms(1)])
  show ?thesis
    unfolding main_unfold[OF assms(1)] using assms(2)
    by (simp add: check_def) (simp add: w1 logEvent_def)
qed

theorem options_diagnostics_fatal_witness:
  "configLoad (exampleTools\<lparr>getOptionsDiagnostics := (\<lambda>program. [''unknown option''])\<rparr>)
     ''.'' None exampleWorld
     = (Inr (\<lparr>fileNames = [''/w/src/a.ts''], options = []\<rparr>,
             \<lparr>basePath = ''/w'', skipTemplateCodegen = True, skipMetadataEmit = False\<rparr>),
        logEvent ReadConfiguration exampleWorld) \<and>
   [''unknown option''] \<noteq> ([] :: string list) \<and>
   main (exampleTools\<lparr>getOptionsDiagnostics := (\<lambda>program. [''unknown option''])\<rparr>)
     10 ''.'' None None exampleWorld
     = (Inl (OptionsDiagnosticError [''unknown option'']),
        exampleWorld\<lparr>trace :=
          [ReadConfiguration, CreateCompilerHost, CreateProgram, GetOptionsDiagnostics]\<rparr>)"
proof -
  let ?tools = "exampleTools\<lparr>getOptionsDiagnostics := (\<lambda>program. [''unknown option''])\<rparr>"
  have h1: "configLoad ?tools ''.'' None exampleWorld
     = (Inr (\<lparr>fileNames = [''/w/src/a.ts''], options = []\<rparr>,
             \<lparr>basePath = ''/w'', skipTemplateCodegen = True, skipMetadataEmit = False\<rparr>),
        logEvent ReadConfiguration exampleWorld)"
    by (simp add: configLoad_def lstatSyncIsFile_def exampleWorld_def exampleTools_def path_eval)
  have h2: "getOptionsDiagnostics ?tools
      (createProgram ?tools (fileNames \<lparr>fileNames = [''/w/src/a.ts''], options = []\<rparr>)
         (options \<lparr>fileNames = [''/w/src/a.ts''], options = []\<rparr>) None
         (files (logEvent ReadConfiguration exampleWorld))) \<noteq> []"
    by (simp add: exampleTools_def)
  have t: "trace exampleWorld = []" by (simp add: exampleWorld_def)
  note c = options_diagnostics_fatal[OF h1 h2, of 10 None]
  have h3: "[''unknown option''] \<noteq> ([] :: string list)" by simp
  have c': "main ?tools 10 ''.'' None None exampleWorld
     = (Inl (OptionsDiagnosticError [''unknown option'']),
        exampleWorld\<lparr>trace :=
          [ReadConfiguration, CreateCompilerHost, CreateProgram, GetOptionsDiagnostics]\<rparr>)"
    using c t by (simp add: exampleTools_def)
  show ?thesis
    using h1 h3 c' by blast
qed

lemma afterCodegen_unfold:
  "afterCodegen tools depth parsed ngOptions program w =
     (case typeCheck tools
             (createProgram tools (fileNames parsed) (options parsed) (Some program) (files w)) of
        Inl e \<Rightarrow> (Inl e, w\<lparr>trace := trace w @ [RecreateProgram, TypeCheck]\<rparr>)
      | Inr _ \<Rightarrow>
          andThen (analyzeAndPatch tools depth parsed
                     (createProgram tools (fileNames parsed) (options parsed) (Some program) (files w))
                     (w\<lparr>trace := trace w @ [RecreateProgram, TypeCheck]\<rparr>))
            (\<lambda>_. emitAll tools ngOptions
                   (createProgram tools (fileNames parsed) (options parsed) (Some program) (files w))))"
  by (simp add: afterCodegen_def Let_def logEvent_def split: sum.splits)

lemma seeded_run:
  "main seededTools 10 ''.'' None
      (Some (\<lambda>ngOptions program fs. (Inl (CodegenFault ''called''), fs))) exampleWorld
   = (Inr (), exampleWorld
        \<lparr>files := (files exampleWorld)
            ([''w'', ''fixes'', ''src''] \<mapsto> Dir,
             [''w'', ''fixes'', ''src'', ''a.ts''] \<mapsto> File ''XXbcdef''),
         trace := [ReadConfiguration, CreateCompilerHost, CreateProgram, GetOptionsDiagnostics,
                   RecreateProgram, TypeCheck,
                   Lint ''/w/src/a.ts'', ConsoleLog ''missing header'',
                   ConsoleLog ''Creating fix src/a.ts'',
                   MkdirSync [''w'', ''fixes'', ''src''],
                   WriteFileSync [''w'', ''fixes'', ''src'', ''a.ts''] ''XXbcdef'',
                   EmitPrimary, EmitMetadata]\<rparr>)"
  by (simp add: main_def configLoad_def lstatSyncIsFile_def runCodegen_def afterCodegen_def
      check_def analyzeAndPatch_def makeFixDir_def emitAll_def runEffect_def
      analyzeFile_def seededTools_def exampleTools_def exampleWorld_def eval_nat_numeral
      accumulateFixReplacements_def accumulateStep_def
      patch_def sortInReverseOrder_def applyReplacements_def applyStep_def
      substring_def substringFrom_def clampIndex_def relative_def
      existsSync_def mkdirSync_def writeFileSync_def logEvent_def path_eval)

text \<open>
  C6. In a run that has read its configuration, with \<open>skipTemplateCodegen\<close> set or
  without an extension: the code generation step returns at once and leaves the process
  as it is, and the extension is not called in the run. When the first program has no
  option diagnostics, the run ends as the type check of the second program ends if that
  throws, and otherwise as the analysis and the emits of the second program end, where
  the second program is the one created from the first on the file system the run started
  with. Its calls are those up to the query of the diagnostics, then the creation of the
  second program, then the type check, and after that only calls of the analysis and of
  the emitters: the program is created again exactly once, before the type check.
\<close>

theorem codegen_skipped_program_recreated:
  assumes "configLoad tools project basePathArg w = (Inr (parsed, ngOptions), w1)"
    and "skipTemplateCodegen ngOptions \<or> codegen = None"
    and "main tools depth project basePathArg codegen w = (r, w')"
  shows "(\<forall>program w4. runCodegen ngOptions program codegen w4 = (Inr (), w4)) \<and>
    (\<exists>evs. trace w' = trace w @ evs \<and> Codegen \<notin> set evs) \<and>
    (getOptionsDiagnostics tools
       (createProgram tools (fileNames parsed) (options parsed) None (files w1)) = [] \<longrightarrow>
     (r, w') =
       (case typeCheck tools
               (createProgram tools (fileNames parsed) (options parsed)
                  (Some (createProgram tools (fileNames parsed) (options parsed) None (files w)))
                  (files w)) of
          Inl e \<Rightarrow>
            (Inl e, w\<lparr>trace := trace w @
               [ReadConfiguration, CreateCompilerHost, CreateProgram, GetOptionsDiagnostics,
                RecreateProgram, TypeCheck]\<rparr>)
        | Inr _ \<Rightarrow>
            andThen
              (analyzeAndPatch tools depth parsed
                 (createProgram tools (fileNames parsed) (options parsed)
                    (Some (createProgram tools (fileNames parsed) (options parsed) None (files w)))
                    (files w))
                 (w\<lparr>trace := trace w @
                    [ReadConfiguration, CreateCompilerHost, CreateProgram, GetOptionsDiagnostics,
                     RecreateProgram, TypeCheck]\<rparr>))
              (\<lambda>_. emitAll tools ngOptions
                 (createProgram tools (fileNames parsed) (options parsed)
                    (Some (createProgram tools (fileNames parsed) (options parsed) None (files w)))
                    (files w)))) \<and>
     (\<exists>rest. trace w' = trace w @
          [ReadConfiguration, CreateCompilerHost, CreateProgram, GetOptionsDiagnostics,
           RecreateProgram, TypeCheck] @ rest \<and>
        list_all analysisOrEmitEvent rest \<and>
        RecreateProgram \<notin> set rest \<and> TypeCheck \<notin> set rest \<and> Codegen \<notin> set rest))"
proof -
  let ?program = "createProgram tools (fileNames parsed) (options parsed) None (files w1)"
  let ?w4 = "logEvent GetOptionsDiagnostics (logEvent CreateProgram (logEvent CreateCompilerHost w1))"
  have skip: "\<forall>program w4. runCodegen ngOptions program codegen w4 = (Inr (), w4)"
    using runCodegen_skip[OF assms(2)] by blast
  have w1: "w1 = logEvent ReadConfiguration w" by (rule configLoad_world[OF assms(1)])
  have f1: "files w1 = files w" by (simp add: w1)
  have t4: "trace ?w4 = trace w @
      [ReadConfiguration, CreateCompilerHost, CreateProgram, GetOptionsDiagnostics]"
    by (simp add: w1)
  have f4: "files ?w4 = files w" by (simp add: w1)
  have w6: "?w4\<lparr>trace := trace ?w4 @ [RecreateProgram, TypeCheck]\<rparr>
      = w\<lparr>trace := trace w @
               [ReadConfiguration, CreateCompilerHost, CreateProgram, GetOptionsDiagnostics,
                RecreateProgram, TypeCheck]\<rparr>"
    by (simp add: w1 logEvent_def)
  have notin: "\<And>rest e. list_all analysisOrEmitEvent rest \<Longrightarrow> \<not> analysisOrEmitEvent e \<Longrightarrow> e \<notin> set rest"
    by (auto simp: list_all_iff)
  show ?thesis
  proof (cases "getOptionsDiagnostics tools ?program = []")
    case False
    then have "main tools depth project basePathArg codegen w = (Inl (OptionsDiagnosticError
            (getOptionsDiagnostics tools ?program)), ?w4)"
      unfolding main_unfold[OF assms(1)] by (simp add: check_def)
    with assms(3) have "w' = ?w4" by simp
    with t4 have "trace w' = trace w @
      [ReadConfiguration, CreateCompilerHost, CreateProgram, GetOptionsDiagnostics]" by simp
    moreover have "Codegen \<notin> set [ReadConfiguration, CreateCompilerHost, CreateProgram,
      GetOptionsDiagnostics]" by simp
    ultimately have "\<exists>evs. trace w' = trace w @ evs \<and> Codegen \<notin> set evs" by blast
    with skip False show ?thesis by blast
  next
    case True
    with assms(3) have ac: "afterCodegen tools depth parsed ngOptions ?program ?w4 = (r, w')"
      unfolding main_unfold[OF assms(1)] by (simp add: check_def skip)
    from afterCodegen_events[OF ac] obtain rest where
      rest: "trace w' = trace ?w4 @ [RecreateProgram, TypeCheck] @ rest"
        "list_all analysisOrEmitEvent rest" by blast
    have full: "trace w' = trace w @
          [ReadConfiguration, CreateCompilerHost, CreateProgram, GetOptionsDiagnostics,
           RecreateProgram, TypeCheck] @ rest"
      using rest(1) t4 by simp
    have n: "RecreateProgram \<notin> set rest" "TypeCheck \<notin> set rest" "Codegen \<notin> set rest"
      using notin[OF rest(2)] by auto
    have "Codegen \<notin> set ([ReadConfiguration, CreateCompilerHost, CreateProgram,
        GetOptionsDiagnostics, RecreateProgram, TypeCheck] @ rest)"
      using n(3) by simp
    with full have ev: "\<exists>evs. trace w' = trace w @ evs \<and> Codegen \<notin> set evs" by blast
    note eq = ac[symmetric, unfolded afterCodegen_unfold, unfolded w6 f4, unfolded f1]
    from skip ev eq full rest(2) n show ?thesis by blast
  qed
qed

theorem codegen_skipped_program_recreated_witness:
  "configLoad seededTools ''.'' None exampleWorld
     = (Inr (\<lparr>fileNames = [''/w/src/a.ts''], options = []\<rparr>,
             \<lparr>basePath = ''/w'', skipTemplateCodegen = True, skipMetadataEmit = False\<rparr>),
        logEvent ReadConfiguration exampleWorld) \<and>
   skipTemplateCodegen
     \<lparr>basePath = ''/w'', skipTemplateCodegen = True, skipMetadataEmit = False\<rparr> \<and>
   getOptionsDiagnostics seededTools
     (createProgram seededTools [''/w/src/a.ts''] [] None (files exampleWorld)) = [] \<and>
   typeCheck seededTools
     (createProgram seededTools [''/w/src/a.ts''] [] None (files exampleWorld))
     = Inl (TypeCheckError ''no files'') \<and>
   typeCheck seededTools
     (createProgram seededTools [''/w/src/a.ts''] []
        (Some (createProgram seededTools [''/w/src/a.ts''] [] None (files exampleWorld)))
        (files exampleWorld)) = Inr () \<and>
   main seededTools 10 ''.'' None
      (Some (\<lambda>ngOptions program fs. (Inl (CodegenFault ''called''), fs))) exampleWorld
   = (Inr (), exampleWorld
        \<lparr>files := (files exampleWorld)
            ([''w'', ''fixes'', ''src''] \<mapsto> Dir,
             [''w'', ''fixes'', ''src'', ''a.ts''] \<mapsto> File ''XXbcdef''),
         trace := [ReadConfiguration, CreateCompilerHost, CreateProgram, GetOptionsDiagnostics,
                   RecreateProgram, TypeCheck,
                   Lint ''/w/src/a.ts'', ConsoleLog ''missing header'',
                   ConsoleLog ''Creating fix src/a.ts'',
                   MkdirSync [''w'', ''fixes'', ''src''],
                   WriteFileSync [''w'', ''fixes'', ''src'', ''a.ts''] ''XXbcdef'',
                   EmitPrimary, EmitMetadata]\<rparr>) \<and>
   (Inr (), exampleWorld
        \<lparr>files := (files exampleWorld)
            ([''w'', ''fixes'', ''src''] \<mapsto> Dir,
             [''w'', ''fixes'', ''src'', ''a.ts''] \<mapsto> File ''XXbcdef''),
         trace := [ReadConfiguration, CreateCompilerHost, CreateProgram, GetOptionsDiagnostics,
                   RecreateProgram, TypeCheck,
                   Lint ''/w/src/a.ts'', ConsoleLog ''missing header'',
                   ConsoleLog ''Creating fix src/a.ts'',
                   MkdirSync [''w'', ''fixes'', ''src''],
                   WriteFileSync [''w'', ''fixes'', ''src'', ''a.ts''] ''XXbcdef'',
                   EmitPrimary, EmitMetadata]\<rparr>)
   = andThen
       (analyzeAndPatch seededTools 10 \<lparr>fileNames = [''/w/src/a.ts''], options = []\<rparr>
          [''/w/src/a.ts'']
          (exampleWorld\<lparr>trace :=
             [ReadConfiguration, CreateCompilerHost, CreateProgram, GetOptionsDiagnostics,
              RecreateProgram, TypeCheck]\<rparr>))
       (\<lambda>_. emitAll seededTools
          \<lparr>basePath = ''/w'', skipTemplateCodegen = True, skipMetadataEmit = False\<rparr>
          [''/w/src/a.ts''])"
proof -
  let ?ng = "\<lparr>basePath = ''/w'', skipTemplateCodegen = True, skipMetadataEmit = False\<rparr>"
  let ?parsed = "\<lparr>fileNames = [''/w/src/a.ts''], options = []\<rparr>"
  let ?ext = "Some (\<lambda>(ngOptions :: NgOptions) (program :: string list) (fs :: FileSystem).
                 (Inl (CodegenFault ''called'') :: Error + unit, fs))"
  have h1: "configLoad seededTools ''.'' None exampleWorld
     = (Inr (?parsed, ?ng), logEvent ReadConfiguration exampleWorld)"
    by (simp add: configLoad_def lstatSyncIsFile_def exampleWorld_def seededTools_def
        exampleTools_def path_eval)
  have h2: "skipTemplateCodegen ?ng \<or> ?ext = None" by simp
  note h3 = seeded_run
  have h4: "getOptionsDiagnostics seededTools
      (createProgram seededTools (fileNames ?parsed) (options ?parsed) None
         (files (logEvent ReadConfiguration exampleWorld))) = []"
    by (simp add: seededTools_def exampleTools_def)
  have p0: "createProgram seededTools [''/w/src/a.ts''] [] None (files exampleWorld) = []"
    by (simp add: seededTools_def exampleTools_def)
  have p1: "createProgram seededTools [''/w/src/a.ts''] [] (Some []) (files exampleWorld)
      = [''/w/src/a.ts'']"
    by (simp add: seededTools_def exampleTools_def)
  have d: "getOptionsDiagnostics seededTools [] = []"
    by (simp add: seededTools_def exampleTools_def)
  have tc0: "typeCheck seededTools [] = Inl (TypeCheckError ''no files'')"
    by (simp add: seededTools_def exampleTools_def)
  have tc1: "typeCheck seededTools [''/w/src/a.ts''] = Inr ()"
    by (simp add: seededTools_def exampleTools_def)
  have t: "trace exampleWorld = []" by (simp add: exampleWorld_def)
  note c = codegen_skipped_program_recreated[OF h1 h2 h3]
  from c h4 have "(Inr (), exampleWorld
        \<lparr>files := (files exampleWorld)
            ([''w'', ''fixes'', ''src''] \<mapsto> Dir,
             [''w'', ''fixes'', ''src'', ''a.ts''] \<mapsto> File ''XXbcdef''),
         trace := [ReadConfiguration, CreateCompilerHost, CreateProgram, GetOptionsDiagnostics,
                   RecreateProgram, TypeCheck,
                   Lint ''/w/src/a.ts'', ConsoleLog ''missing header'',
                   ConsoleLog ''Creating fix src/a.ts'',
                   MkdirSync [''w'', ''fixes'', ''src''],
                   WriteFileSync [''w'', ''fixes'', ''src'', ''a.ts''] ''XXbcdef'',
                   EmitPrimary, EmitMetadata]\<rparr>)
     = andThen
       (analyzeAndPatch seededTools 10 ?parsed [''/w/src/a.ts'']
          (exampleWorld\<lparr>trace :=
             [ReadConfiguration, CreateCompilerHost, CreateProgram, GetOptionsDiagnostics,
              RecreateProgram, TypeCheck]\<rparr>))
       (\<lambda>_. emitAll seededTools ?ng [''/w/src/a.ts''])"
    by (simp add: p0 p1 tc1 t)
  then show ?thesis using h1 h3 p0 p1 d tc0 tc1 by simp
qed

section \<open>Properties of the analysis of the files\<close>

lemma writeFileSync_keeps:
  "writeFileSync path data w = (r, w') \<Longrightarrow> files w k \<noteq> None \<Longrightarrow> files w' k \<noteq> None"
  by (auto simp: writeFileSync_def logEvent_def Let_def split: if_splits option.splits Node.splits)

lemma onlyDirsAdded_keeps: "onlyDirsAdded w w' \<Longrightarrow> files w k \<noteq> None \<Longrightarrow> files w' k \<noteq> None"
  unfolding onlyDirsAdded_def by metis

lemma analyzeFile_frame:
  assumes "analyzeFile tools depth fixDir newProgram file w = (r, w')"
  shows "cwd w' = cwd w \<and> (\<forall>k. files w k \<noteq> None \<longrightarrow> files w' k \<noteq> None) \<and>
     (\<exists>evs. trace w' = trace w @ evs \<and> (\<forall>k. MkdirSync k \<in> set evs \<longrightarrow> files w k = None))"
proof (cases "getFullText tools newProgram file")
  case None
  from assms[unfolded analyzeFile_None[OF None]] have "w' = w" by simp
  then have "trace w' = trace w @ []" by simp
  with \<open>w' = w\<close> show ?thesis by (metis empty_iff list.set(1))
next
  case (Some source)
  define result where "result = lint tools file source newProgram"
  define rs where "rs = accumulateFixReplacements (failures result)"
  define w3 where "w3 = logEvent (ConsoleLog (''Creating fix '' @ relative (cwd w) (cwd w) file))
     (logEvent (ConsoleLog (output' result)) (logEvent (Lint file) w))"
  consider (clean) "\<not> failureCount result > 0"
    | (nofix) "failureCount result > 0" "rs = []"
    | (withfix) "failureCount result > 0" "rs \<noteq> []" by blast
  then show ?thesis
  proof cases
    case clean
    from assms[unfolded analyzeFile_clean[OF Some clean[unfolded result_def]]]
    have "w' = logEvent (Lint file) w" by simp
    then have "cwd w' = cwd w" "files w' = files w" "trace w' = trace w @ [Lint file]" by simp_all
    moreover have "\<forall>k. MkdirSync k \<in> set [Lint file] \<longrightarrow> files w k = None" by simp
    ultimately show ?thesis by metis
  next
    case nofix
    from assms[unfolded analyzeFile_nofix[OF Some nofix[unfolded result_def rs_def]]]
    have "w' = logEvent (ConsoleLog (output' result)) (logEvent (Lint file) w)"
      by (simp add: result_def)
    then have "cwd w' = cwd w" "files w' = files w"
      "trace w' = trace w @ [Lint file, ConsoleLog (output' result)]" by simp_all
    moreover have "\<forall>k. MkdirSync k \<in> set [Lint file, ConsoleLog (output' result)] \<longrightarrow> files w k = None"
      by simp
    ultimately show ?thesis by metis
  next
    case withfix
    note eq = assms[unfolded analyzeFile_fix[OF Some withfix[unfolded result_def rs_def]],
        folded result_def, folded rs_def, folded w3_def]
    let ?pre = "[Lint file, ConsoleLog (output' result),
        ConsoleLog (''Creating fix '' @ relative (cwd w) (cwd w) file)]"
    have t3: "trace w3 = trace w @ ?pre" and c3: "cwd w3 = cwd w" and f3: "files w3 = files w"
      by (simp_all add: w3_def)
    show ?thesis
    proof (cases "mkdirParent depth fixDir (dirname (relative (cwd w) (cwd w) file)) w3")
      case None
      with eq have "w' = w3" by simp
      moreover have "\<forall>k. MkdirSync k \<in> set ?pre \<longrightarrow> files w k = None" by simp
      ultimately show ?thesis using t3 c3 f3 by metis
    next
      case (Some a)
      obtain r4 w4 where a: "a = (r4, w4)" by (cases a)
      from mkdirParent_events[OF Some[unfolded a]] obtain ks where
        ks: "trace w4 = trace w3 @ map MkdirSync ks" "\<forall>k \<in> set ks. files w3 k = None" by blast
      note inv = mkdirParent_inv[OF Some[unfolded a]]
      have c4: "cwd w4 = cwd w" using inv c3 by simp
      have k4: "\<forall>k. files w k \<noteq> None \<longrightarrow> files w4 k \<noteq> None"
        using inv onlyDirsAdded_keeps f3 by metis
      have e4: "\<forall>k. MkdirSync k \<in> set (?pre @ map MkdirSync ks) \<longrightarrow> files w k = None"
        using ks(2) f3 by auto
      have t4: "trace w4 = trace w @ (?pre @ map MkdirSync ks)" using ks(1) t3 by simp
      show ?thesis
      proof (cases r4)
        case (Inl e)
        with eq Some a have "w' = w4" by simp
        then show ?thesis using c4 k4 e4 t4 by blast
      next
        case (Inr u)
        with eq Some a
        have wr: "writeFileSync (join fixDir (relative (cwd w) (cwd w) file)) (patch source rs) w4 = (r, w')"
          by simp
        note eff = writeFileSync_effect[OF wr]
        have "cwd w' = cwd w" using eff(1) c4 by simp
        moreover have "\<forall>k. files w k \<noteq> None \<longrightarrow> files w' k \<noteq> None"
          using k4 writeFileSync_keeps[OF wr] by blast
        moreover have "trace w' = trace w @ (?pre @ map MkdirSync ks @
            [WriteFileSync (resolveSegments (cwd w4) (join fixDir (relative (cwd w) (cwd w) file)))
               (patch source rs)])"
          using eff(2) t4 by simp
        moreover have "\<forall>k. MkdirSync k \<in> set (?pre @ map MkdirSync ks @
            [WriteFileSync (resolveSegments (cwd w4) (join fixDir (relative (cwd w) (cwd w) file)))
               (patch source rs)]) \<longrightarrow> files w k = None"
          using e4 by auto
        ultimately show ?thesis by blast
      qed
    qed
  qed
qed

lemma analyzeFiles_frame:
  "analyzeFiles tools depth fixDir newProgram names w = (r, w') \<Longrightarrow>
     cwd w' = cwd w \<and> (\<forall>k. files w k \<noteq> None \<longrightarrow> files w' k \<noteq> None) \<and>
     (\<exists>evs. trace w' = trace w @ evs \<and> (\<forall>k. MkdirSync k \<in> set evs \<longrightarrow> files w k = None))"
proof (induction names arbitrary: w)
  case Nil
  then have "w' = w" by simp
  then have "trace w' = trace w @ []" by simp
  with \<open>w' = w\<close> show ?case by (metis empty_iff list.set(1))
next
  case (Cons name rest)
  from Cons.prems have
    "andThen (analyzeFile tools depth fixDir newProgram name w)
       (\<lambda>_. analyzeFiles tools depth fixDir newProgram rest) = (r, w')" by simp
  then show ?case
  proof (cases rule: andThen_cases)
    case (1 e)
    from analyzeFile_frame[OF 1(1)] show ?thesis .
  next
    case (2 x w1)
    from analyzeFile_frame[OF 2(1)] obtain evs1 where
      a: "cwd w1 = cwd w" "\<forall>k. files w k \<noteq> None \<longrightarrow> files w1 k \<noteq> None"
        "trace w1 = trace w @ evs1" "\<forall>k. MkdirSync k \<in> set evs1 \<longrightarrow> files w k = None" by blast
    from Cons.IH[OF 2(2)] obtain evs2 where
      b: "cwd w' = cwd w1" "\<forall>k. files w1 k \<noteq> None \<longrightarrow> files w' k \<noteq> None"
        "trace w' = trace w1 @ evs2" "\<forall>k. MkdirSync k \<in> set evs2 \<longrightarrow> files w1 k = None" by blast
    have "trace w' = trace w @ (evs1 @ evs2)" using a(3) b(3) by simp
    moreover have "\<forall>k. MkdirSync k \<in> set (evs1 @ evs2) \<longrightarrow> files w k = None"
      using a(2) a(4) b(4) by auto
    moreover have "cwd w' = cwd w" using a(1) b(1) by simp
    moreover have "\<forall>k. files w k \<noteq> None \<longrightarrow> files w' k \<noteq> None" using a(2) b(2) by blast
    ultimately show ?thesis by blast
  qed
qed

lemma makeFixDir_wellFormed:
  assumes "wellFormed w" and "makeFixDir (join (cwd w) ''fixes'') w = (r, w')"
  shows "r = Inr ()" and "cwd w' = cwd w"
    and "files w' (resolveSegments (cwd w) (join (cwd w) ''fixes'')) \<noteq> None"
    and "trace w' = trace w @
      (if existsSync (join (cwd w) ''fixes'') w then []
       else [MkdirSync (resolveSegments (cwd w) (join (cwd w) ''fixes''))])"
proof -
  let ?k = "resolveSegments (cwd w) (join (cwd w) ''fixes'')"
  have ab: "isAbsolute (cwd w)" and cd: "files w (resolveSegments (cwd w) (cwd w)) = Some Dir"
    using assms(1) by (simp_all add: wellFormed_def)
  have parent: "files w (butlast ?k) = Some Dir" using cd fixDir_segments[OF ab] by simp
  have all: "r = Inr () \<and> cwd w' = cwd w \<and> files w' ?k \<noteq> None \<and>
     trace w' = trace w @ (if existsSync (join (cwd w) ''fixes'') w then [] else [MkdirSync ?k])"
  proof (cases "existsSync (join (cwd w) ''fixes'') w")
    case True
    with assms(2) show ?thesis by (auto simp: makeFixDir_def existsSync_def)
  next
    case False
    then have "files w ?k = None" by (simp add: existsSync_def)
    with False assms(2) parent show ?thesis
      by (auto simp: makeFixDir_def mkdirSync_def Let_def)
  qed
  from all show "r = Inr ()" "cwd w' = cwd w" "files w' ?k \<noteq> None"
    "trace w' = trace w @ (if existsSync (join (cwd w) ''fixes'') w then [] else [MkdirSync ?k])"
    by simp_all
qed

lemma freshWorld_wellFormed: "wellFormed freshWorld"
  by (simp add: wellFormed_def freshWorld_def path_eval)

lemma fresh_run:
  "analyzeAndPatch quietTools 10 \<lparr>fileNames = [''/w/src/a.ts''], options = []\<rparr>
      [''/w/src/a.ts''] freshWorld
   = (Inr (), freshWorld\<lparr>files := (files freshWorld)([''w'', ''fixes''] \<mapsto> Dir),
                          trace := [MkdirSync [''w'', ''fixes''], Lint ''/w/src/a.ts'']\<rparr>)"
  by (simp add: analyzeAndPatch_def makeFixDir_def analyzeFile_def quietTools_def exampleTools_def
      freshWorld_def existsSync_def mkdirSync_def logEvent_def path_eval)

text \<open>
  C9. On a well-formed file system, however the analysis of the files ends and whatever
  the linter finds, the directory \<open>fixes\<close> of the working directory exists after
  it. When it did not exist, the call that creates it is the first call of the phase,
  before any file is analysed, and no later call of the phase creates it again; when it
  existed, no call of the phase creates it.
\<close>

theorem fixes_directory_created_first:
  assumes "wellFormed w" and "analyzeAndPatch tools depth parsed newProgram w = (r, w')"
  shows "existsSync (join (cwd w) ''fixes'') w' \<and>
     (\<exists>rest. trace w' = trace w @
         (if existsSync (join (cwd w) ''fixes'') w then []
          else [MkdirSync (resolveSegments (cwd w) (join (cwd w) ''fixes''))]) @ rest \<and>
        MkdirSync (resolveSegments (cwd w) (join (cwd w) ''fixes'')) \<notin> set rest)"
proof -
  let ?fixDir = "join (cwd w) ''fixes''"
  let ?k = "resolveSegments (cwd w) ?fixDir"
  let ?made = "if existsSync ?fixDir w then [] else [MkdirSync ?k]"
  from assms(2) have
    "andThen (makeFixDir ?fixDir w)
       (\<lambda>_. analyzeFiles tools depth ?fixDir newProgram (fileNames parsed)) = (r, w')"
    by (simp add: analyzeAndPatch_def Let_def)
  then show ?thesis
  proof (cases rule: andThen_cases)
    case (1 e)
    from makeFixDir_wellFormed(1)[OF assms(1) 1(1)] show ?thesis by simp
  next
    case (2 x w1)
    note m = makeFixDir_wellFormed[OF assms(1) 2(1)]
    from analyzeFiles_frame[OF 2(2)] obtain rest where
      f: "cwd w' = cwd w1" "\<forall>k. files w1 k \<noteq> None \<longrightarrow> files w' k \<noteq> None"
        "trace w' = trace w1 @ rest" "\<forall>k. MkdirSync k \<in> set rest \<longrightarrow> files w1 k = None" by blast
    have "existsSync ?fixDir w'" using f(1) f(2) m(2) m(3) by (simp add: existsSync_def)
    moreover have "trace w' = trace w @ ?made @ rest" using f(3) m(4) by simp
    moreover have "MkdirSync ?k \<notin> set rest" using f(4) m(3) by auto
    ultimately show ?thesis by blast
  qed
qed

theorem fixes_directory_created_first_witness:
  "wellFormed freshWorld \<and>
   analyzeAndPatch quietTools 10 \<lparr>fileNames = [''/w/src/a.ts''], options = []\<rparr>
      [''/w/src/a.ts''] freshWorld
   = (Inr (), freshWorld\<lparr>files := (files freshWorld)([''w'', ''fixes''] \<mapsto> Dir),
                          trace := [MkdirSync [''w'', ''fixes''], Lint ''/w/src/a.ts'']\<rparr>) \<and>
   \<not> existsSync (join (cwd freshWorld) ''fixes'') freshWorld \<and>
   existsSync (join (cwd freshWorld) ''fixes'')
     (freshWorld\<lparr>files := (files freshWorld)([''w'', ''fixes''] \<mapsto> Dir),
                  trace := [MkdirSync [''w'', ''fixes''], Lint ''/w/src/a.ts'']\<rparr>)"
proof -
  have h1: "wellFormed freshWorld" by (rule freshWorld_wellFormed)
  note h2 = fresh_run
  have h3: "\<not> existsSync (join (cwd freshWorld) ''fixes'') freshWorld"
    by (simp add: existsSync_def freshWorld_def path_eval)
  from fixes_directory_created_first[OF h1 h2] h1 h2 h3 show ?thesis by blast
qed

text \<open>
  One pass of the loop, for a file with at least one collected replacement, in a process
  whose working directory is absolute: the pass writes the patched text at the mirrored
  path of the file and nowhere else, and that path is not the path of the file.
\<close>

lemma analyzeFile_mirror:
  assumes "isAbsolute (cwd w)"
    and "getFullText tools newProgram file = Some source"
    and "failureCount (lint tools file source newProgram) > 0"
    and "accumulateFixReplacements (failures (lint tools file source newProgram)) \<noteq> []"
    and "analyzeFile tools depth (join (cwd w) ''fixes'') newProgram file w = (r, w')"
  shows
    "resolveSegments (cwd w) (join (join (cwd w) ''fixes'') (relative (cwd w) (cwd w) file))
       \<noteq> resolveSegments (cwd w) file \<and>
     (\<forall>k. k \<noteq> resolveSegments (cwd w) (join (join (cwd w) ''fixes'') (relative (cwd w) (cwd w) file))
          \<longrightarrow> files w' k = files w k \<or> (files w k = None \<and> files w' k = Some Dir)) \<and>
     (files w (resolveSegments (cwd w) file) \<noteq> None \<longrightarrow>
        files w' (resolveSegments (cwd w) file) = files w (resolveSegments (cwd w) file)) \<and>
     (r = Inr () \<longrightarrow>
        files w' (resolveSegments (cwd w) (join (join (cwd w) ''fixes'') (relative (cwd w) (cwd w) file)))
          = Some (File (patch source
                   (accumulateFixReplacements (failures (lint tools file source newProgram)))))) \<and>
     (\<exists>evs. trace w' = trace w @ evs \<and>
        (\<forall>k data. WriteFileSync k data \<in> set evs \<longrightarrow>
           k = resolveSegments (cwd w) (join (join (cwd w) ''fixes'') (relative (cwd w) (cwd w) file)) \<and>
           data = patch source
                    (accumulateFixReplacements (failures (lint tools file source newProgram)))))"
proof -
  define result where "result = lint tools file source newProgram"
  define rs where "rs = accumulateFixReplacements (failures result)"
  define newPath where "newPath = relative (cwd w) (cwd w) file"
  define fixDir where "fixDir = join (cwd w) ''fixes''"
  define mirrored where "mirrored = resolveSegments (cwd w) (join fixDir newPath)"
  define w3 where "w3 = logEvent (ConsoleLog (''Creating fix '' @ newPath))
     (logEvent (ConsoleLog (output' result)) (logEvent (Lint file) w))"
  let ?pre = "[Lint file, ConsoleLog (output' result), ConsoleLog (''Creating fix '' @ newPath)]"
  note eq = assms(5)[unfolded analyzeFile_fix[OF assms(2) assms(3) assms(4)],
      folded result_def, folded rs_def, folded newPath_def, folded fixDir_def, folded w3_def]
  have t3: "trace w3 = trace w @ ?pre" and c3: "cwd w3 = cwd w" and f3: "files w3 = files w"
    by (simp_all add: w3_def)
  have ne: "mirrored \<noteq> resolveSegments (cwd w) file"
  proof
    assume "mirrored = resolveSegments (cwd w) file"
    then have "length mirrored = length (resolveSegments (cwd w) file)" by simp
    then show False
      using mirrored_length[OF assms(1), of "file"] by (simp add: mirrored_def fixDir_def newPath_def)
  qed
  have main: "(\<forall>k. k \<noteq> mirrored \<longrightarrow> files w' k = files w k \<or> (files w k = None \<and> files w' k = Some Dir)) \<and>
     (r = Inr () \<longrightarrow> files w' mirrored = Some (File (patch source rs))) \<and>
     (\<exists>evs. trace w' = trace w @ evs \<and>
        (\<forall>k data. WriteFileSync k data \<in> set evs \<longrightarrow> k = mirrored \<and> data = patch source rs))"
  proof (cases "mkdirParent depth fixDir (dirname newPath) w3")
    case None
    with eq have w': "w' = w3" and r: "r = Inl RangeError" by simp_all
    have "\<forall>k data. WriteFileSync k data \<in> set ?pre \<longrightarrow> k = mirrored \<and> data = patch source rs"
      by simp
    with t3 have "\<exists>evs. trace w3 = trace w @ evs \<and>
        (\<forall>k data. WriteFileSync k data \<in> set evs \<longrightarrow> k = mirrored \<and> data = patch source rs)"
      by blast
    then show ?thesis using w' r f3 by simp
  next
    case (Some a)
    obtain r4 w4 where a: "a = (r4, w4)" by (cases a)
    from mkdirParent_events[OF Some[unfolded a]] obtain ks where
      ks: "trace w4 = trace w3 @ map MkdirSync ks" by blast
    note inv = mkdirParent_inv[OF Some[unfolded a]]
    have c4: "cwd w4 = cwd w" using inv c3 by simp
    have d4: "\<forall>k. files w4 k = files w k \<or> (files w k = None \<and> files w4 k = Some Dir)"
      using inv f3 by (simp add: onlyDirsAdded_def)
    have t4: "trace w4 = trace w @ (?pre @ map MkdirSync ks)" using ks t3 by simp
    have e4: "\<forall>k data. WriteFileSync k data \<in> set (?pre @ map MkdirSync ks) \<longrightarrow>
        k = mirrored \<and> data = patch source rs" by auto
    show ?thesis
    proof (cases r4)
      case (Inl e)
      with eq Some a have w': "w' = w4" and r: "r = Inl e" by simp_all
      show ?thesis using w' r d4 t4 e4 by blast
    next
      case (Inr u)
      with eq Some a
      have wr: "writeFileSync (join fixDir newPath) (patch source rs) w4 = (r, w')" by simp
      note eff = writeFileSync_effect[OF wr, unfolded c4, folded mirrored_def]
      have "\<forall>k. k \<noteq> mirrored \<longrightarrow> files w' k = files w k \<or> (files w k = None \<and> files w' k = Some Dir)"
        using eff(3) d4 by simp
      moreover have "r = Inr () \<longrightarrow> files w' mirrored = Some (File (patch source rs))"
        using eff(4) by simp
      moreover have "trace w' = trace w @ (?pre @ map MkdirSync ks @ [WriteFileSync mirrored (patch source rs)])"
        using eff(2) t4 by simp
      moreover have "\<forall>k data. WriteFileSync k data \<in>
          set (?pre @ map MkdirSync ks @ [WriteFileSync mirrored (patch source rs)]) \<longrightarrow>
          k = mirrored \<and> data = patch source rs" by auto
      ultimately show ?thesis by blast
    qed
  qed
  have orig: "files w (resolveSegments (cwd w) file) \<noteq> None \<longrightarrow>
        files w' (resolveSegments (cwd w) file) = files w (resolveSegments (cwd w) file)"
    using main ne by metis
  show ?thesis
    using ne main orig
    unfolding mirrored_def fixDir_def newPath_def rs_def result_def by blast
qed

lemmas run_eval = analyzeAndPatch_def makeFixDir_def analyzeFile_def exampleTools_def eval_nat_numeral
      accumulateFixReplacements_def accumulateStep_def
      patch_def sortInReverseOrder_def applyReplacements_def applyStep_def
      substring_def substringFrom_def clampIndex_def relative_def
      existsSync_def mkdirSync_def writeFileSync_def logEvent_def path_eval

lemma collision_run:
  "analyzeAndPatch collisionTools 10
      \<lparr>fileNames = [''/w/fixes/a.ts'', ''/w/a.ts''], options = []\<rparr>
      [''/w/fixes/a.ts'', ''/w/a.ts''] collisionWorld
   = (Inr (), collisionWorld
        \<lparr>files := (files collisionWorld)
            ([''w'', ''fixes'', ''fixes''] \<mapsto> Dir,
             [''w'', ''fixes'', ''fixes'', ''a.ts''] \<mapsto> File ''XXirst'',
             [''w'', ''fixes'', ''a.ts''] \<mapsto> File ''XXecond''),
         trace := [Lint ''/w/fixes/a.ts'', ConsoleLog ''missing header'',
                   ConsoleLog ''Creating fix fixes/a.ts'',
                   MkdirSync [''w'', ''fixes'', ''fixes''],
                   WriteFileSync [''w'', ''fixes'', ''fixes'', ''a.ts''] ''XXirst'',
                   Lint ''/w/a.ts'', ConsoleLog ''missing header'',
                   ConsoleLog ''Creating fix a.ts'',
                   WriteFileSync [''w'', ''fixes'', ''a.ts''] ''XXecond'']\<rparr>)"
  by (simp add: collisionTools_def collisionWorld_def run_eval)


lemma unchanged_or_dir_trans:
  assumes "files w1 k = files w k \<or> (files w k = None \<and> files w1 k = Some Dir)"
    and "files w2 k = files w1 k \<or> (files w1 k = None \<and> files w2 k = Some Dir)"
  shows "files w2 k = files w k \<or> (files w k = None \<and> files w2 k = Some Dir)"
  using assms by auto

lemma patchedText_None:
  "patchedText tools newProgram name = None \<Longrightarrow>
     analyzeFile tools depth fixDir newProgram name w = (r, w') \<Longrightarrow>
     cwd w' = cwd w \<and> files w' = files w \<and>
     (\<exists>evs. trace w' = trace w @ evs \<and> (\<forall>k data. WriteFileSync k data \<notin> set evs))"
proof -
  assume pn: "patchedText tools newProgram name = None"
    and run: "analyzeFile tools depth fixDir newProgram name w = (r, w')"
  show ?thesis
  proof (cases "getFullText tools newProgram name")
    case None
    from run[unfolded analyzeFile_None[OF None]] have "w' = w" by simp
    then have "trace w' = trace w @ []" by simp
    with \<open>w' = w\<close> show ?thesis by (metis empty_iff list.set(1))
  next
    case (Some source)
    define result where "result = lint tools name source newProgram"
    from pn Some have c: "\<not> failureCount result > 0 \<or>
        accumulateFixReplacements (failures result) = []"
      by (auto simp: patchedText_def Let_def result_def split: if_splits)
    show ?thesis
    proof (cases "failureCount result > 0")
      case False
      from run[unfolded analyzeFile_clean[OF Some False[unfolded result_def]]]
      have "w' = logEvent (Lint name) w" by simp
      then have "cwd w' = cwd w" "files w' = files w" "trace w' = trace w @ [Lint name]"
        by simp_all
      moreover have "\<forall>k data. WriteFileSync k data \<notin> set [Lint name]" by simp
      ultimately show ?thesis by metis
    next
      case True
      with c have e: "accumulateFixReplacements (failures result) = []" by simp
      from run[unfolded analyzeFile_nofix[OF Some True[unfolded result_def] e[unfolded result_def]]]
      have "w' = logEvent (ConsoleLog (output' result)) (logEvent (Lint name) w)"
        by (simp add: result_def)
      then have "cwd w' = cwd w" "files w' = files w"
        "trace w' = trace w @ [Lint name, ConsoleLog (output' result)]" by simp_all
      moreover have "\<forall>k data. WriteFileSync k data \<notin> set [Lint name, ConsoleLog (output' result)]"
        by simp
      ultimately show ?thesis by metis
    qed
  qed
qed

lemma patchedText_Some:
  assumes "patchedText tools newProgram name = Some data"
  obtains source where "getFullText tools newProgram name = Some source"
    and "failureCount (lint tools name source newProgram) > 0"
    and "accumulateFixReplacements (failures (lint tools name source newProgram)) \<noteq> []"
    and "data = patch source (accumulateFixReplacements (failures (lint tools name source newProgram)))"
  using assms
  by (auto simp: patchedText_def Let_def split: option.splits if_splits)

lemma analyzeFile_step:
  assumes "isAbsolute (cwd w)"
    and "analyzeFile tools depth (join (cwd w) ''fixes'') newProgram name w = (r, w')"
  shows "cwd w' = cwd w"
    and "\<forall>k. (patchedText tools newProgram name \<noteq> None \<longrightarrow> k \<noteq> mirroredPath (cwd w) name) \<longrightarrow>
           files w' k = files w k \<or> (files w k = None \<and> files w' k = Some Dir)"
    and "\<exists>evs. trace w' = trace w @ evs \<and>
           (\<forall>k data. WriteFileSync k data \<in> set evs \<longrightarrow>
              patchedText tools newProgram name = Some data \<and> k = mirroredPath (cwd w) name)"
    and "r = Inr () \<longrightarrow> (\<forall>data. patchedText tools newProgram name = Some data \<longrightarrow>
           files w' (mirroredPath (cwd w) name) = Some (File data))"
proof -
  have c: "cwd w' = cwd w" using analyzeFile_frame[OF assms(2)] by simp
  have all: "(\<forall>k. (patchedText tools newProgram name \<noteq> None \<longrightarrow> k \<noteq> mirroredPath (cwd w) name) \<longrightarrow>
           files w' k = files w k \<or> (files w k = None \<and> files w' k = Some Dir)) \<and>
     (\<exists>evs. trace w' = trace w @ evs \<and>
           (\<forall>k data. WriteFileSync k data \<in> set evs \<longrightarrow>
              patchedText tools newProgram name = Some data \<and> k = mirroredPath (cwd w) name)) \<and>
     (r = Inr () \<longrightarrow> (\<forall>data. patchedText tools newProgram name = Some data \<longrightarrow>
           files w' (mirroredPath (cwd w) name) = Some (File data)))"
  proof (cases "patchedText tools newProgram name")
    case None
    from patchedText_None[OF None assms(2)] show ?thesis using None by auto
  next
    case (Some data)
    from Some obtain source where
      s: "getFullText tools newProgram name = Some source"
        "failureCount (lint tools name source newProgram) > 0"
        "accumulateFixReplacements (failures (lint tools name source newProgram)) \<noteq> []"
        "data = patch source (accumulateFixReplacements (failures (lint tools name source newProgram)))"
      by (rule patchedText_Some)
    note m = analyzeFile_mirror[OF assms(1) s(1) s(2) s(3) assms(2),
        folded s(4), folded mirroredPath_def]
    from m Some show ?thesis by auto
  qed
  show "cwd w' = cwd w" by (rule c)
  show "\<forall>k. (patchedText tools newProgram name \<noteq> None \<longrightarrow> k \<noteq> mirroredPath (cwd w) name) \<longrightarrow>
           files w' k = files w k \<or> (files w k = None \<and> files w' k = Some Dir)"
    using all by blast
  show "\<exists>evs. trace w' = trace w @ evs \<and>
           (\<forall>k data. WriteFileSync k data \<in> set evs \<longrightarrow>
              patchedText tools newProgram name = Some data \<and> k = mirroredPath (cwd w) name)"
    using all by blast
  show "r = Inr () \<longrightarrow> (\<forall>data. patchedText tools newProgram name = Some data \<longrightarrow>
           files w' (mirroredPath (cwd w) name) = Some (File data))"
    using all by blast
qed

lemma analyzeFiles_step:
  assumes "isAbsolute wd"
  shows "cwd w = wd \<Longrightarrow>
     analyzeFiles tools depth (join wd ''fixes'') newProgram names w = (r, w') \<Longrightarrow>
     cwd w' = wd \<and>
     (\<forall>k. (\<forall>name \<in> set names. patchedText tools newProgram name \<noteq> None \<longrightarrow>
               k \<noteq> mirroredPath wd name) \<longrightarrow>
          files w' k = files w k \<or> (files w k = None \<and> files w' k = Some Dir)) \<and>
     (\<exists>evs. trace w' = trace w @ evs \<and>
        (\<forall>k data. WriteFileSync k data \<in> set evs \<longrightarrow>
           (\<exists>name \<in> set names. patchedText tools newProgram name = Some data \<and>
              k = mirroredPath wd name))) \<and>
     (r = Inr () \<longrightarrow>
        (\<forall>name \<in> set names. patchedText tools newProgram name \<noteq> None \<longrightarrow>
           (\<exists>other \<in> set names. \<exists>data.
              mirroredPath wd other = mirroredPath wd name \<and>
              patchedText tools newProgram other = Some data \<and>
              files w' (mirroredPath wd name) = Some (File data))))"
proof (induction names arbitrary: w)
  case Nil
  then have "w' = w" by simp
  then have "trace w' = trace w @ []" by simp
  then have "\<exists>evs. trace w' = trace w @ evs \<and>
        (\<forall>k data. WriteFileSync k data \<in> set evs \<longrightarrow>
           (\<exists>name \<in> set []. patchedText tools newProgram name = Some data \<and>
              k = mirroredPath wd name))"
    by (metis empty_iff list.set(1))
  with \<open>w' = w\<close> Nil.prems(1) show ?case by simp
next
  case (Cons name rest)
  from Cons.prems(2) have
    "andThen (analyzeFile tools depth (join wd ''fixes'') newProgram name w)
       (\<lambda>_. analyzeFiles tools depth (join wd ''fixes'') newProgram rest) = (r, w')" by simp
  then show ?case
  proof (cases rule: andThen_cases)
    case (1 e)
    have ab: "isAbsolute (cwd w)" using assms Cons.prems(1) by simp
    note st = analyzeFile_step[OF ab 1(1)[folded Cons.prems(1)], unfolded Cons.prems(1)]
    from st(3) obtain evs where
      evs: "trace w' = trace w @ evs"
        "\<forall>k data. WriteFileSync k data \<in> set evs \<longrightarrow>
           patchedText tools newProgram name = Some data \<and> k = mirroredPath wd name" by blast
    have "\<forall>k data. WriteFileSync k data \<in> set evs \<longrightarrow>
           (\<exists>n \<in> set (name # rest). patchedText tools newProgram n = Some data \<and>
              k = mirroredPath wd n)"
      using evs(2) by auto
    with evs(1) have tr: "\<exists>evs. trace w' = trace w @ evs \<and>
        (\<forall>k data. WriteFileSync k data \<in> set evs \<longrightarrow>
           (\<exists>n \<in> set (name # rest). patchedText tools newProgram n = Some data \<and>
              k = mirroredPath wd n))" by blast
    have fr: "\<forall>k. (\<forall>n \<in> set (name # rest). patchedText tools newProgram n \<noteq> None \<longrightarrow>
               k \<noteq> mirroredPath wd n) \<longrightarrow>
          files w' k = files w k \<or> (files w k = None \<and> files w' k = Some Dir)"
      using st(2) by simp
    have wr: "r = Inr () \<longrightarrow>
        (\<forall>n \<in> set (name # rest). patchedText tools newProgram n \<noteq> None \<longrightarrow>
           (\<exists>other \<in> set (name # rest). \<exists>data.
              mirroredPath wd other = mirroredPath wd n \<and>
              patchedText tools newProgram other = Some data \<and>
              files w' (mirroredPath wd n) = Some (File data)))"
      using 1(2) by simp
    show ?thesis by (rule conjI[OF st(1) conjI[OF fr conjI[OF tr wr]]])
  next
    case (2 x w1)
    have ab: "isAbsolute (cwd w)" using assms Cons.prems(1) by simp
    note st = analyzeFile_step[OF ab 2(1)[folded Cons.prems(1)], unfolded Cons.prems(1)]
    note ih = Cons.IH[OF st(1) 2(2)]
    note ih1 = ih[THEN conjunct1]
    note ih2 = ih[THEN conjunct2, THEN conjunct1]
    note ih3 = ih[THEN conjunct2, THEN conjunct2, THEN conjunct1]
    note ih4 = ih[THEN conjunct2, THEN conjunct2, THEN conjunct2]
    from st(3) obtain evs1 where
      e1: "trace w1 = trace w @ evs1"
        "\<forall>k data. WriteFileSync k data \<in> set evs1 \<longrightarrow>
           patchedText tools newProgram name = Some data \<and> k = mirroredPath wd name" by blast
    from ih3 obtain evs2 where
      e2: "trace w' = trace w1 @ evs2"
        "\<forall>k data. WriteFileSync k data \<in> set evs2 \<longrightarrow>
           (\<exists>n \<in> set rest. patchedText tools newProgram n = Some data \<and> k = mirroredPath wd n)"
      by blast
    have "trace w' = trace w @ (evs1 @ evs2)" using e1(1) e2(1) by simp
    moreover have "\<forall>k data. WriteFileSync k data \<in> set (evs1 @ evs2) \<longrightarrow>
           (\<exists>n \<in> set (name # rest). patchedText tools newProgram n = Some data \<and>
              k = mirroredPath wd n)"
      using e1(2) e2(2) by auto
    ultimately have tr: "\<exists>evs. trace w' = trace w @ evs \<and>
        (\<forall>k data. WriteFileSync k data \<in> set evs \<longrightarrow>
           (\<exists>n \<in> set (name # rest). patchedText tools newProgram n = Some data \<and>
              k = mirroredPath wd n))" by blast
    have fr: "\<forall>k. (\<forall>n \<in> set (name # rest). patchedText tools newProgram n \<noteq> None \<longrightarrow>
               k \<noteq> mirroredPath wd n) \<longrightarrow>
          files w' k = files w k \<or> (files w k = None \<and> files w' k = Some Dir)"
    proof (intro allI impI)
      fix k assume a: "\<forall>n \<in> set (name # rest). patchedText tools newProgram n \<noteq> None \<longrightarrow>
               k \<noteq> mirroredPath wd n"
      then have "files w1 k = files w k \<or> (files w k = None \<and> files w1 k = Some Dir)"
        using st(2) by simp
      moreover have "files w' k = files w1 k \<or> (files w1 k = None \<and> files w' k = Some Dir)"
        using ih2[rule_format, of k] a by simp
      ultimately show "files w' k = files w k \<or> (files w k = None \<and> files w' k = Some Dir)"
        by (rule unchanged_or_dir_trans)
    qed
    have wr: "r = Inr () \<longrightarrow>
        (\<forall>n \<in> set (name # rest). patchedText tools newProgram n \<noteq> None \<longrightarrow>
           (\<exists>other \<in> set (name # rest). \<exists>data.
              mirroredPath wd other = mirroredPath wd n \<and>
              patchedText tools newProgram other = Some data \<and>
              files w' (mirroredPath wd n) = Some (File data)))"
    proof (intro impI ballI)
      fix n assume r: "r = Inr ()" and n: "n \<in> set (name # rest)"
        and pn: "patchedText tools newProgram n \<noteq> None"
      show "\<exists>other \<in> set (name # rest). \<exists>data.
              mirroredPath wd other = mirroredPath wd n \<and>
              patchedText tools newProgram other = Some data \<and>
              files w' (mirroredPath wd n) = Some (File data)"
      proof (cases "\<exists>o2 \<in> set rest. patchedText tools newProgram o2 \<noteq> None \<and>
                       mirroredPath wd o2 = mirroredPath wd n")
        case True
        then obtain o2 where o2: "o2 \<in> set rest" "patchedText tools newProgram o2 \<noteq> None"
          "mirroredPath wd o2 = mirroredPath wd n" by blast
        from ih4[rule_format, OF r o2(1) o2(2)] obtain o3 data where
          "o3 \<in> set rest" "mirroredPath wd o3 = mirroredPath wd o2"
          "patchedText tools newProgram o3 = Some data"
          "files w' (mirroredPath wd o2) = Some (File data)" by blast
        then show ?thesis using o2(3) by auto
      next
        case False
        then have nn: "n = name" using n pn by auto
        from pn obtain data where d: "patchedText tools newProgram n = Some data" by auto
        have f1: "files w1 (mirroredPath wd n) = Some (File data)"
          using st(4) d nn by (simp add: 2(1))
        have "\<forall>o2 \<in> set rest. patchedText tools newProgram o2 \<noteq> None \<longrightarrow>
            mirroredPath wd n \<noteq> mirroredPath wd o2" using False by metis
        then have "files w' (mirroredPath wd n) = files w1 (mirroredPath wd n) \<or>
            (files w1 (mirroredPath wd n) = None \<and> files w' (mirroredPath wd n) = Some Dir)"
          using ih2[rule_format, of "mirroredPath wd n"] by blast
        with f1 have "files w' (mirroredPath wd n) = Some (File data)" by simp
        with d nn show ?thesis by auto
      qed
    qed
    show ?thesis by (rule conjI[OF ih1 conjI[OF fr conjI[OF tr wr]]])
  qed
qed

lemma makeFixDir_frame:
  assumes "makeFixDir fixDir w = (r, w1)"
  shows "cwd w1 = cwd w" and "onlyDirsAdded w w1"
    and "\<exists>evs. trace w1 = trace w @ evs \<and> (\<forall>k data. WriteFileSync k data \<notin> set evs)"
proof -
  have all: "cwd w1 = cwd w \<and> onlyDirsAdded w w1 \<and>
     (\<exists>evs. trace w1 = trace w @ evs \<and> (\<forall>k data. WriteFileSync k data \<notin> set evs))"
  proof (cases "existsSync fixDir w")
    case True
    with assms have "w1 = w" by (simp add: makeFixDir_def)
    moreover have "trace w = trace w @ []" by simp
    ultimately show ?thesis using onlyDirsAdded_refl by (metis empty_iff list.set(1))
  next
    case False
    with assms have mk: "mkdirSync fixDir w = (r, w1)" by (simp add: makeFixDir_def)
    have "\<forall>k data. WriteFileSync k data \<notin> set [MkdirSync (resolveSegments (cwd w) fixDir)]"
      by simp
    with mkdirSync_trace[OF mk] have "\<exists>evs. trace w1 = trace w @ evs \<and>
        (\<forall>k data. WriteFileSync k data \<notin> set evs)" by blast
    then show ?thesis using mkdirSync_cwd[OF mk] mkdirSync_onlyDirs[OF mk] by simp
  qed
  from all show "cwd w1 = cwd w" "onlyDirsAdded w w1"
    "\<exists>evs. trace w1 = trace w @ evs \<and> (\<forall>k data. WriteFileSync k data \<notin> set evs)"
    by simp_all
qed

lemma mirroredPath_differs:
  "isAbsolute wd \<Longrightarrow> mirroredPath wd name \<noteq> resolveSegments wd name"
proof
  assume a: "isAbsolute wd" and "mirroredPath wd name = resolveSegments wd name"
  then have "length (mirroredPath wd name) = length (resolveSegments wd name)" by simp
  then show False using mirrored_length[OF a, of name] by (simp add: mirroredPath_def)
qed

lemma example_analyzeAndPatch:
  "\<exists>w'. analyzeAndPatch exampleTools 10 \<lparr>fileNames = [''/w/src/a.ts''], options = []\<rparr>
      [''/w/src/a.ts''] exampleWorld = (Inr (), w')"
  by (simp add: exampleWorld_def run_eval)

text \<open>
  C8, as stated, fails over the whole step: the mirrored path of one file can be the path
  of another source file. In \<open>/w\<close> with the files \<open>/w/fixes/a.ts\<close> and \<open>/w/a.ts\<close>,
  each with a collected replacement, the pass of \<open>/w/a.ts\<close> writes its patched text
  at \<open>/w/fixes/a.ts\<close>: the source file \<open>/w/fixes/a.ts\<close>, whose own patched text
  went to \<open>/w/fixes/fixes/a.ts\<close>, is not as it was.
\<close>

theorem patch_overwrites_other_source:
  "wellFormed collisionWorld \<and>
   resolveSegments (cwd collisionWorld) ''/w/fixes/a.ts'' = [''w'', ''fixes'', ''a.ts''] \<and>
   files collisionWorld [''w'', ''fixes'', ''a.ts''] = Some (File ''first'') \<and>
   patchedText collisionTools [''/w/fixes/a.ts'', ''/w/a.ts''] ''/w/fixes/a.ts'' = Some ''XXirst'' \<and>
   mirroredPath (cwd collisionWorld) ''/w/fixes/a.ts'' = [''w'', ''fixes'', ''fixes'', ''a.ts''] \<and>
   fst (analyzeAndPatch collisionTools 10
          \<lparr>fileNames = [''/w/fixes/a.ts'', ''/w/a.ts''], options = []\<rparr>
          [''/w/fixes/a.ts'', ''/w/a.ts''] collisionWorld) = Inr () \<and>
   files (snd (analyzeAndPatch collisionTools 10
          \<lparr>fileNames = [''/w/fixes/a.ts'', ''/w/a.ts''], options = []\<rparr>
          [''/w/fixes/a.ts'', ''/w/a.ts''] collisionWorld)) [''w'', ''fixes'', ''a.ts'']
     = Some (File ''XXecond'')"
proof -
  have "wellFormed collisionWorld"
    by (simp add: wellFormed_def collisionWorld_def path_eval)
  moreover have "resolveSegments (cwd collisionWorld) ''/w/fixes/a.ts'' = [''w'', ''fixes'', ''a.ts'']"
    by (simp add: collisionWorld_def path_eval)
  moreover have "files collisionWorld [''w'', ''fixes'', ''a.ts''] = Some (File ''first'')"
    by (simp add: collisionWorld_def)
  moreover have "patchedText collisionTools [''/w/fixes/a.ts'', ''/w/a.ts''] ''/w/fixes/a.ts''
      = Some ''XXirst''"
    by (simp add: patchedText_def collisionTools_def exampleTools_def
        accumulateFixReplacements_def accumulateStep_def
        patch_def sortInReverseOrder_def applyReplacements_def applyStep_def
        substring_def substringFrom_def clampIndex_def)
  moreover have "mirroredPath (cwd collisionWorld) ''/w/fixes/a.ts''
      = [''w'', ''fixes'', ''fixes'', ''a.ts'']"
    by (simp add: mirroredPath_def collisionWorld_def relative_def path_eval)
  ultimately show ?thesis by (simp add: collision_run)
qed

text \<open>
  C8, amended. In a process whose working directory is absolute, over the whole step: the
  mirrored path of a file is never the path of that file; every write of the step is of
  the patched text of a file of the run with a collected replacement, at the mirrored path
  of that file; a path that is not the mirrored path of such a file keeps what it had, or
  is a new directory; so a source file on disk is left as it was unless its path is the
  mirrored path of a file of the run with a collected replacement. When the step returns,
  the mirrored path of every such file holds the patched text of a file of the run with
  that mirrored path.
\<close>

theorem patched_texts_written_to_mirrors_only:
  assumes "isAbsolute (cwd w)"
    and "analyzeAndPatch tools depth parsed newProgram w = (r, w')"
  shows "(\<forall>name. mirroredPath (cwd w) name \<noteq> resolveSegments (cwd w) name) \<and>
    (\<exists>evs. trace w' = trace w @ evs \<and>
       (\<forall>k data. WriteFileSync k data \<in> set evs \<longrightarrow>
          (\<exists>name \<in> set (fileNames parsed).
             patchedText tools newProgram name = Some data \<and> k = mirroredPath (cwd w) name))) \<and>
    (\<forall>k. (\<forall>name \<in> set (fileNames parsed). patchedText tools newProgram name \<noteq> None \<longrightarrow>
              k \<noteq> mirroredPath (cwd w) name) \<longrightarrow>
         files w' k = files w k \<or> (files w k = None \<and> files w' k = Some Dir)) \<and>
    (\<forall>name. (\<forall>other \<in> set (fileNames parsed). patchedText tools newProgram other \<noteq> None \<longrightarrow>
                 mirroredPath (cwd w) other \<noteq> resolveSegments (cwd w) name) \<longrightarrow>
            files w (resolveSegments (cwd w) name) \<noteq> None \<longrightarrow>
            files w' (resolveSegments (cwd w) name) = files w (resolveSegments (cwd w) name)) \<and>
    (r = Inr () \<longrightarrow>
       (\<forall>name \<in> set (fileNames parsed). patchedText tools newProgram name \<noteq> None \<longrightarrow>
          (\<exists>other \<in> set (fileNames parsed). \<exists>data.
             mirroredPath (cwd w) other = mirroredPath (cwd w) name \<and>
             patchedText tools newProgram other = Some data \<and>
             files w' (mirroredPath (cwd w) name) = Some (File data))))"
proof -
  let ?wd = "cwd w"
  let ?names = "fileNames parsed"
  have c1: "\<forall>name. mirroredPath ?wd name \<noteq> resolveSegments ?wd name"
    using mirroredPath_differs[OF assms(1)] by blast
  from assms(2) have
    "andThen (makeFixDir (join ?wd ''fixes'') w)
       (\<lambda>_. analyzeFiles tools depth (join ?wd ''fixes'') newProgram ?names) = (r, w')"
    by (simp add: analyzeAndPatch_def Let_def)
  then have rest: "(\<exists>evs. trace w' = trace w @ evs \<and>
       (\<forall>k data. WriteFileSync k data \<in> set evs \<longrightarrow>
          (\<exists>name \<in> set ?names.
             patchedText tools newProgram name = Some data \<and> k = mirroredPath ?wd name))) \<and>
    (\<forall>k. (\<forall>name \<in> set ?names. patchedText tools newProgram name \<noteq> None \<longrightarrow>
              k \<noteq> mirroredPath ?wd name) \<longrightarrow>
         files w' k = files w k \<or> (files w k = None \<and> files w' k = Some Dir)) \<and>
    (r = Inr () \<longrightarrow>
       (\<forall>name \<in> set ?names. patchedText tools newProgram name \<noteq> None \<longrightarrow>
          (\<exists>other \<in> set ?names. \<exists>data.
             mirroredPath ?wd other = mirroredPath ?wd name \<and>
             patchedText tools newProgram other = Some data \<and>
             files w' (mirroredPath ?wd name) = Some (File data))))"
  proof (cases rule: andThen_cases)
    case (1 e)
    note m = makeFixDir_frame[OF 1(1)]
    from m(3) have "\<exists>evs. trace w' = trace w @ evs \<and>
       (\<forall>k data. WriteFileSync k data \<in> set evs \<longrightarrow>
          (\<exists>name \<in> set ?names.
             patchedText tools newProgram name = Some data \<and> k = mirroredPath ?wd name))"
      by blast
    moreover have "\<forall>k. files w' k = files w k \<or> (files w k = None \<and> files w' k = Some Dir)"
      using m(2) by (simp add: onlyDirsAdded_def)
    ultimately show ?thesis using 1(2) by simp
  next
    case (2 x w1)
    note m = makeFixDir_frame[OF 2(1)]
    note st = analyzeFiles_step[OF assms(1) m(1) 2(2)]
    note st2 = st[THEN conjunct2, THEN conjunct1]
    note st3 = st[THEN conjunct2, THEN conjunct2, THEN conjunct1]
    note st4 = st[THEN conjunct2, THEN conjunct2, THEN conjunct2]
    from m(3) obtain evs1 where
      e1: "trace w1 = trace w @ evs1" "\<forall>k data. WriteFileSync k data \<notin> set evs1" by blast
    from st3 obtain evs2 where
      e2: "trace w' = trace w1 @ evs2"
        "\<forall>k data. WriteFileSync k data \<in> set evs2 \<longrightarrow>
          (\<exists>name \<in> set ?names.
             patchedText tools newProgram name = Some data \<and> k = mirroredPath ?wd name)"
      by blast
    have "trace w' = trace w @ (evs1 @ evs2)" using e1(1) e2(1) by simp
    moreover have "\<forall>k data. WriteFileSync k data \<in> set (evs1 @ evs2) \<longrightarrow>
          (\<exists>name \<in> set ?names.
             patchedText tools newProgram name = Some data \<and> k = mirroredPath ?wd name)"
      using e1(2) e2(2) by auto
    ultimately have tr: "\<exists>evs. trace w' = trace w @ evs \<and>
       (\<forall>k data. WriteFileSync k data \<in> set evs \<longrightarrow>
          (\<exists>name \<in> set ?names.
             patchedText tools newProgram name = Some data \<and> k = mirroredPath ?wd name))"
      by blast
    have fr: "\<forall>k. (\<forall>name \<in> set ?names. patchedText tools newProgram name \<noteq> None \<longrightarrow>
              k \<noteq> mirroredPath ?wd name) \<longrightarrow>
         files w' k = files w k \<or> (files w k = None \<and> files w' k = Some Dir)"
    proof (intro allI impI)
      fix k assume a: "\<forall>name \<in> set ?names. patchedText tools newProgram name \<noteq> None \<longrightarrow>
              k \<noteq> mirroredPath ?wd name"
      have "files w1 k = files w k \<or> (files w k = None \<and> files w1 k = Some Dir)"
        using m(2) by (simp add: onlyDirsAdded_def)
      moreover have "files w' k = files w1 k \<or> (files w1 k = None \<and> files w' k = Some Dir)"
        using st2[rule_format, of k] a by simp
      ultimately show "files w' k = files w k \<or> (files w k = None \<and> files w' k = Some Dir)"
        by (rule unchanged_or_dir_trans)
    qed
    show ?thesis by (rule conjI[OF tr conjI[OF fr st4]])
  qed
  note fr = rest[THEN conjunct2, THEN conjunct1]
  have orig: "\<forall>name. (\<forall>other \<in> set ?names. patchedText tools newProgram other \<noteq> None \<longrightarrow>
                 mirroredPath ?wd other \<noteq> resolveSegments ?wd name) \<longrightarrow>
            files w (resolveSegments ?wd name) \<noteq> None \<longrightarrow>
            files w' (resolveSegments ?wd name) = files w (resolveSegments ?wd name)"
  proof (intro allI impI)
    fix name
    assume a: "\<forall>other \<in> set ?names. patchedText tools newProgram other \<noteq> None \<longrightarrow>
                 mirroredPath ?wd other \<noteq> resolveSegments ?wd name"
      and e: "files w (resolveSegments ?wd name) \<noteq> None"
    have "\<forall>other \<in> set ?names. patchedText tools newProgram other \<noteq> None \<longrightarrow>
                 resolveSegments ?wd name \<noteq> mirroredPath ?wd other"
      using a by metis
    with fr[rule_format, of "resolveSegments ?wd name"] e
    show "files w' (resolveSegments ?wd name) = files w (resolveSegments ?wd name)" by auto
  qed
  show ?thesis
    by (rule conjI[OF c1 conjI[OF rest[THEN conjunct1] conjI[OF fr
          conjI[OF orig rest[THEN conjunct2, THEN conjunct2]]]]])
qed

theorem patched_texts_written_to_mirrors_only_witness:
  "isAbsolute (cwd exampleWorld) \<and>
   patchedText exampleTools [''/w/src/a.ts''] ''/w/src/a.ts'' = Some ''XXbcdef'' \<and>
   mirroredPath (cwd exampleWorld) ''/w/src/a.ts'' = [''w'', ''fixes'', ''src'', ''a.ts''] \<and>
   resolveSegments (cwd exampleWorld) ''/w/src/a.ts'' = [''w'', ''src'', ''a.ts''] \<and>
   files exampleWorld [''w'', ''src'', ''a.ts''] = Some (File ''abcdef'') \<and>
   (\<exists>w'. analyzeAndPatch exampleTools 10 \<lparr>fileNames = [''/w/src/a.ts''], options = []\<rparr>
            [''/w/src/a.ts''] exampleWorld = (Inr (), w') \<and>
         files w' [''w'', ''src'', ''a.ts''] = Some (File ''abcdef'') \<and>
         files w' [''w'', ''fixes'', ''src'', ''a.ts''] = Some (File ''XXbcdef''))"
proof -
  let ?parsed = "\<lparr>fileNames = [''/w/src/a.ts''], options = []\<rparr>"
  let ?prog = "[''/w/src/a.ts'']"
  have h1: "isAbsolute (cwd exampleWorld)" by (simp add: exampleWorld_def isAbsolute_def)
  obtain w' where h2: "analyzeAndPatch exampleTools 10 ?parsed ?prog exampleWorld = (Inr (), w')"
    using example_analyzeAndPatch by blast
  have p: "patchedText exampleTools ?prog ''/w/src/a.ts'' = Some ''XXbcdef''"
    by (simp add: patchedText_def exampleTools_def
        accumulateFixReplacements_def accumulateStep_def
        patch_def sortInReverseOrder_def applyReplacements_def applyStep_def
        substring_def substringFrom_def clampIndex_def)
  have m: "mirroredPath (cwd exampleWorld) ''/w/src/a.ts'' = [''w'', ''fixes'', ''src'', ''a.ts'']"
    by (simp add: mirroredPath_def exampleWorld_def relative_def path_eval)
  have o: "resolveSegments (cwd exampleWorld) ''/w/src/a.ts'' = [''w'', ''src'', ''a.ts'']"
    by (simp add: exampleWorld_def path_eval)
  have f: "files exampleWorld [''w'', ''src'', ''a.ts''] = Some (File ''abcdef'')"
    by (simp add: exampleWorld_def)
  note c = patched_texts_written_to_mirrors_only[OF h1 h2]
  note c4 = c[THEN conjunct2, THEN conjunct2, THEN conjunct2, THEN conjunct1,
      rule_format, of "''/w/src/a.ts''", unfolded o]
  note c5 = c[THEN conjunct2, THEN conjunct2, THEN conjunct2, THEN conjunct2,
      rule_format, of "''/w/src/a.ts''"]
  have a: "files w' [''w'', ''src'', ''a.ts''] = Some (File ''abcdef'')"
    using c4 f p m by simp
  have b: "files w' [''w'', ''fixes'', ''src'', ''a.ts''] = Some (File ''XXbcdef'')"
    using c5 p m by simp
  show ?thesis using h1 h2 p m o f a b by blast
qed

end
